theory Spec2Isabelle
  imports Complex_Main
begin

section \<open>The resumable DOI enrichment engine of \<open>pipeline_with_resume.py\<close>\<close>

text \<open>
  The class \<open>CAPESDOIEnricherFinal\<close> is embedded function by function. Everything it
  mutates (the SQLite cache, the checkpoint files, the progress table, the HTTP traffic and
  the sleeps) is a field of an explicit \<open>world\<close> that every operation takes and returns.
  Everything it obtains from outside its own source (the built-in \<open>str.upper\<close>, the
  scorer \<open>fuzz.token_sort_ratio\<close>, the answers of the Crossref service, the random draws of
  \<open>DataFrame.sample\<close> and the clock of the file system) is a field of an environment
  \<open>env\<close>, so that a theorem stated for every environment holds for the real one.

  The constructor fixes the settings; the model uses them as constants.
\<close>

definition max_concurrent :: nat where "max_concurrent = 50"
definition rate_limit :: real where "rate_limit = 80"
definition similarity_threshold :: real where "similarity_threshold = 90"
definition batch_size :: nat where "batch_size = 200"
definition checkpoint_interval :: nat where "checkpoint_interval = 1000"

subsection \<open>Text\<close>

text \<open>
  The input files are decoded as ISO-8859-1, so a title is a sequence of code points below
  256: a \<open>string\<close>. A missing title (NaN in the data frame) is \<open>None\<close>.

  \<open>py_isspace\<close> is \<open>str.isspace\<close> on these code points: TAB to CR, FS to US, the
  space, NEL (0x85) and the no-break space (0xA0). \<open>str.strip()\<close> removes such characters
  from both ends.
\<close>

definition py_isspace :: "char \<Rightarrow> bool" where
  "py_isspace c = (let n = (of_char c :: nat) in
     (9 \<le> n \<and> n \<le> 13) \<or> (28 \<le> n \<and> n \<le> 32) \<or> n = 133 \<or> n = 160)"

definition strip :: "string \<Rightarrow> string" where
  "strip s = rev (dropWhile py_isspace (rev (dropWhile py_isspace s)))"

text \<open>\<open>needle in haystack\<close> on strings: the needle occurs as a contiguous run.\<close>

fun starts_with :: "string \<Rightarrow> string \<Rightarrow> bool" where
  "starts_with [] s = True"
| "starts_with (p # ps) [] = False"
| "starts_with (p # ps) (c # cs) = (p = c \<and> starts_with ps cs)"

fun py_in :: "string \<Rightarrow> string \<Rightarrow> bool" where
  "py_in needle [] = (needle = [])"
| "py_in needle (c # cs) = (starts_with needle (c # cs) \<or> py_in needle cs)"

text \<open>
  \<open>ascii_upper\<close> is what \<open>str.upper\<close> does on ASCII text; it instantiates the
  environment's \<open>upper\<close> where a theorem is evaluated at an ASCII input.
\<close>

definition ascii_upper_char :: "char \<Rightarrow> char" where
  "ascii_upper_char c =
     (case map_of (zip ''abcdefghijklmnopqrstuvwxyz'' ''ABCDEFGHIJKLMNOPQRSTUVWXYZ'') c of
        Some u \<Rightarrow> u
      | None \<Rightarrow> c)"

definition ascii_upper :: "string \<Rightarrow> string" where
  "ascii_upper s = map ascii_upper_char s"

subsection \<open>The skip patterns\<close>

text \<open>
  The four entries of \<open>self.skip_patterns\<close> are anchored sequences of bounded repetitions
  of a character class:
  \<^verbatim>\<open>^[A-Z\s]{10,}$\<close>, \<^verbatim>\<open>^\d+\s*$\<close>, \<^verbatim>\<open>^.{0,5}$\<close>, \<^verbatim>\<open>^.{250,}$\<close>.
  \<open>re_match\<close> is \<open>re.match\<close> on such a pattern without flags: \<open>.\<close> is every
  character but the newline, \<open>\s\<close> is \<open>str.isspace\<close>, \<open>\d\<close> is a decimal digit,
  and \<open>$\<close> holds at the end of the string or just before a newline that ends it. A match
  exists when some choice of repetition counts reaches \<open>$\<close>.
\<close>

datatype charclass = Upper_or_space | Digit | Space | Dot

fun in_class :: "charclass \<Rightarrow> char \<Rightarrow> bool" where
  "in_class Upper_or_space c =
     ((65 \<le> (of_char c :: nat) \<and> (of_char c :: nat) \<le> 90) \<or> py_isspace c)"
| "in_class Digit c = (48 \<le> (of_char c :: nat) \<and> (of_char c :: nat) \<le> 57)"
| "in_class Space c = py_isspace c"
| "in_class Dot c = (c \<noteq> CHR 0x0A)"

datatype piece = Rep charclass nat "nat option"

fun re_match :: "piece list \<Rightarrow> string \<Rightarrow> bool" where
  "re_match [] s = (s = [] \<or> s = [CHR 0x0A])"
| "re_match (Rep c lo hi # ps) s =
     (let avail = length (takeWhile (in_class c) s);
          ub = (case hi of None \<Rightarrow> avail | Some h \<Rightarrow> min h avail)
      in list_ex (\<lambda>k. re_match ps (drop k s)) [lo..<Suc ub])"

definition skip_patterns :: "piece list list" where
  "skip_patterns =
     [[Rep Upper_or_space 10 None],
      [Rep Digit 1 None, Rep Space 0 None],
      [Rep Dot 0 (Some 5)],
      [Rep Dot 250 None]]"

definition portuguese_indicators :: "string list" where
  "portuguese_indicators =
     [''OCORR'' @ [CHR 0xCA] @ ''NCIA DE'', ''PREVAL'' @ [CHR 0xCA] @ ''NCIA DE'',
      ''ESTUDO DE CASO'']"

subsection \<open>Crossref items, results, rows\<close>

text \<open>
  An item of the service's answer may lack its \<open>DOI\<close> and its \<open>title\<close> list. A result is
  the dictionary that \<open>find_best_match\<close> and \<open>get_cached_result\<close> return. A row of the
  input frame carries the title column \<open>NM_PRODUCAO\<close> and the year column \<open>AN_BASE\<close>
  (\<open>None\<close> is NaN); a frame pairs each row with its index label. An enriched row is a row
  with the four result columns.
\<close>

record item =
  item_DOI :: "string option"
  item_title :: "string list option"

record result =
  doi :: "string option"
  crossref_title :: "string option"
  similarity_score :: real
  from_cache :: bool

record row =
  NM_PRODUCAO :: "string option"
  AN_BASE :: "nat option"

type_synonym erow = "row \<times> result"

datatype payload = Items "item list" | Malformed

datatype response = Http nat payload | Transport_error

text \<open>
  The environment: \<open>upper\<close> is \<open>str.upper\<close>; \<open>token_sort_ratio\<close> is the scorer
  of \<open>rapidfuzz\<close>; \<open>crossref n query\<close> is the service's answer to the request number
  \<open>n\<close> of the run, made with \<open>query\<close>; \<open>rng j\<close> holds the random numbers of the
  sampling call number \<open>j\<close> of the run; \<open>clock b\<close> is the time at the save that follows
  batch \<open>b\<close>; \<open>request_order k\<close> and \<open>completion_order k\<close> hold the random numbers
  that order the requests and the answers of the batch that starts when the run has issued
  \<open>k\<close> requests.
\<close>

record env =
  upper :: "string \<Rightarrow> string"
  token_sort_ratio :: "string \<Rightarrow> string \<Rightarrow> real"
  crossref :: "nat \<Rightarrow> string \<Rightarrow> response"
  rng :: "nat \<Rightarrow> nat list"
  clock :: "nat \<Rightarrow> nat"
  request_order :: "nat \<Rightarrow> nat list"
  completion_order :: "nat \<Rightarrow> nat list"

subsection \<open>Skip filter and normalisation\<close>

definition should_skip_title :: "env \<Rightarrow> string option \<Rightarrow> bool" where
  "should_skip_title E title =
     (case title of
        None \<Rightarrow> True
      | Some t \<Rightarrow>
          if strip t = [] then True
          else
            let title_str = strip t in
            if list_ex (\<lambda>pattern. re_match pattern title_str) skip_patterns then True
            else if list_ex (\<lambda>indicator. py_in indicator (upper E title_str))
                      portuguese_indicators then True
            else False)"

definition normalize_title :: "env \<Rightarrow> string option \<Rightarrow> string option" where
  "normalize_title E title =
     (case title of
        None \<Rightarrow> None
      | Some t \<Rightarrow> if t = [] then None else Some (take 200 (upper E (strip t))))"

subsection \<open>The fuzzy match selector\<close>

text \<open>
  \<open>first_title\<close> is the expression
  \<^verbatim>\<open>item.get('title', [''])[0] if item.get('title') else ''\<close>.
\<close>

definition first_title :: "item \<Rightarrow> string" where
  "first_title it = (case item_title it of None \<Rightarrow> [] | Some [] \<Rightarrow> [] | Some (t # ts) \<Rightarrow> t)"

definition similarity :: "env \<Rightarrow> string \<Rightarrow> item \<Rightarrow> real" where
  "similarity E original_clean it =
     token_sort_ratio E original_clean (strip (upper E (first_title it)))"

fun match_loop :: "env \<Rightarrow> string \<Rightarrow> item list \<Rightarrow> result option" where
  "match_loop E original_clean [] = None"
| "match_loop E original_clean (it # items) =
     (if first_title it = [] then match_loop E original_clean items
      else if similarity E original_clean it \<ge> similarity_threshold
      then Some \<lparr>doi = item_DOI it, crossref_title = Some (first_title it),
                 similarity_score = similarity E original_clean it, from_cache = False\<rparr>
      else match_loop E original_clean items)"

definition find_best_match :: "env \<Rightarrow> string \<Rightarrow> item list \<Rightarrow> result option" where
  "find_best_match E original_title crossref_items =
     (if crossref_items = [] then None
      else match_loop E (strip (upper E original_title)) crossref_items)"

subsection \<open>The match cache\<close>

text \<open>
  The table \<open>crossref_cache\<close> is a map from the normalised title (its primary key) to
  the three stored columns; \<open>INSERT OR REPLACE\<close> is the map update. Both operations do
  nothing for a title whose normalised form is \<open>None\<close> or empty (\<open>if not normalized\<close>).
\<close>

record cache_entry =
  c_doi :: "string option"
  c_crossref_title :: "string option"
  c_similarity_score :: "real option"

definition get_cached_result :: "env \<Rightarrow> (string \<rightharpoonup> cache_entry) \<Rightarrow> string option \<Rightarrow> result option" where
  "get_cached_result E c title =
     (case normalize_title E title of
        None \<Rightarrow> None
      | Some normalized \<Rightarrow>
          if normalized = [] then None
          else (case c normalized of
                  None \<Rightarrow> None
                | Some e \<Rightarrow>
                    Some \<lparr>doi = c_doi e, crossref_title = c_crossref_title e,
                          similarity_score =
                            (case c_similarity_score e of Some s \<Rightarrow> s | None \<Rightarrow> 0),
                          from_cache = True\<rparr>))"

definition cache_result ::
  "env \<Rightarrow> string option \<Rightarrow> string option \<Rightarrow> string option \<Rightarrow> real \<Rightarrow>
   (string \<rightharpoonup> cache_entry) \<Rightarrow> (string \<rightharpoonup> cache_entry)" where
  "cache_result E title d ct score c =
     (case normalize_title E title of
        None \<Rightarrow> c
      | Some normalized \<Rightarrow>
          if normalized = [] then c
          else c(normalized \<mapsto>
                 \<lparr>c_doi = d, c_crossref_title = ct, c_similarity_score = Some score\<rparr>))"

subsection \<open>The world\<close>

text \<open>
  A checkpoint file \<open>checkpoint_<target>_<count>.parquet\<close> is named by its target size
  and its count; it has a modification time and holds enriched rows (written without the
  index). The directory is the list of its files in the order \<open>glob\<close> yields them. The
  table \<open>processing_progress\<close> is an append-only list. \<open>requests\<close> logs the query of
  every HTTP call issued and \<open>sleeps\<close> the duration of every \<open>asyncio.sleep\<close>.
\<close>

record checkpoint =
  ck_target :: nat
  ck_count :: nat
  st_mtime :: nat
  ck_data :: "erow list"

record progress_row =
  session_id :: nat
  records_processed :: nat
  target_size :: nat
  checkpoint_file :: "nat \<times> nat"
  status :: string

record world =
  cache :: "string \<rightharpoonup> cache_entry"
  requests :: "string list"
  sleeps :: "real list"
  storage :: "checkpoint list"
  progress :: "progress_row list"
  outputs :: "nat \<rightharpoonup> erow list"

datatype error = ZeroDivisionError | ValueError

subsection \<open>The fetch layer\<close>

text \<open>
  \<open>search_crossref\<close> wraps its body in \<open>try ... except: return None\<close>. The service's
  answer to the \<open>n\<close>-th request of the run is \<open>crossref E n query\<close>: a status with a
  payload that parses to a list of items or does not, or a transport failure (timeout,
  refused connection). \<open>read_response\<close> is what the function does once the answer is
  there.
\<close>

definition read_response :: "env \<Rightarrow> string \<Rightarrow> response \<Rightarrow> world \<Rightarrow> result option \<times> world" where
  "read_response E title resp w =
     (case resp of
        Http st body \<Rightarrow>
          if st = 200 then
            (case body of
               Items items \<Rightarrow> (find_best_match E title items, w)
             | Malformed \<Rightarrow> (None, w))
          else if st = 429 then (None, w\<lparr>sleeps := sleeps w @ [1]\<rparr>)
          else (None, w)
      | Transport_error \<Rightarrow> (None, w))"

definition search_crossref :: "env \<Rightarrow> string \<Rightarrow> world \<Rightarrow> result option \<times> world" where
  "search_crossref E title w =
     (let query = take 100 title;
          w1 = w\<lparr>requests := requests w @ [query]\<rparr>
      in read_response E title (crossref E (length (requests w)) query) w1)"

text \<open>
  \<open>process_title\<close> runs without suspension up to the semaphore: the skip test and the
  cache lookup (\<open>process_title_start\<close>). What follows holds a permit
  (\<open>under_semaphore\<close>): the rate-limit pause, the request and the cache write
  (\<open>cache_outcome\<close>, the \<open>if result: ... else: ...\<close> that ends the function).
\<close>

datatype pending = Done "result option" | Waiting string

definition process_title_start ::
  "env \<Rightarrow> string option \<Rightarrow> (string \<rightharpoonup> cache_entry) \<Rightarrow> pending" where
  "process_title_start E title c =
     (if should_skip_title E title then Done None
      else (case get_cached_result E c title of
              Some cached \<Rightarrow> Done (Some cached)
            | None \<Rightarrow> (case title of Some t \<Rightarrow> Waiting t | None \<Rightarrow> Done None)))"

definition cache_outcome :: "env \<Rightarrow> string \<Rightarrow> result option \<Rightarrow> world \<Rightarrow> world" where
  "cache_outcome E t res w =
     (case res of
        Some r \<Rightarrow>
          w\<lparr>cache := cache_result E (Some t) (doi r) (crossref_title r)
                       (similarity_score r) (cache w)\<rparr>
      | None \<Rightarrow> w\<lparr>cache := cache_result E (Some t) None None 0 (cache w)\<rparr>)"

definition under_semaphore :: "env \<Rightarrow> string \<Rightarrow> world \<Rightarrow> result option \<times> world" where
  "under_semaphore E t w =
     (let w0 = w\<lparr>sleeps := sleeps w @ [1 / rate_limit]\<rparr>;
          (res, w1) = search_crossref E t w0
      in (res, cache_outcome E t res w1))"

definition process_title_finish :: "env \<Rightarrow> pending \<Rightarrow> world \<Rightarrow> result option \<times> world" where
  "process_title_finish E p w = (case p of Done r \<Rightarrow> (r, w) | Waiting t \<Rightarrow> under_semaphore E t w)"

definition process_title :: "env \<Rightarrow> string option \<Rightarrow> world \<Rightarrow> result option \<times> world" where
  "process_title E title w = process_title_finish E (process_title_start E title (cache w)) w"

subsection \<open>The batch orchestrator\<close>

text \<open>
  \<open>sample rs n xs\<close> is \<open>xs.sample(n=n)\<close>: \<open>n\<close> rows drawn without replacement, each
  draw picking the position that the next random number selects. Every call site bounds
  \<open>n\<close> by the length of \<open>xs\<close>. \<open>shuffle rs xs\<close> draws all of \<open>xs\<close>: an arbitrary
  order of its elements.
\<close>

fun sample :: "nat list \<Rightarrow> nat \<Rightarrow> 'a list \<Rightarrow> 'a list" where
  "sample rs 0 xs = []"
| "sample rs (Suc n) xs =
     (if xs = [] then []
      else
        let i = (case rs of [] \<Rightarrow> 0 | r # _ \<Rightarrow> r) mod length xs
        in xs ! i # sample (tl rs) n (take i xs @ drop (Suc i) xs))"

definition shuffle :: "nat list \<Rightarrow> 'a list \<Rightarrow> 'a list" where
  "shuffle rs xs = sample rs (length xs) xs"

text \<open>
  \<open>tqdm.gather\<close> creates the tasks of the batch from a set, in no fixed order, and
  returns their results in the order of its arguments. Every task runs to its first
  suspension when the event loop first schedules it, before any other task resumes, so
  every cache lookup of the batch reads the cache as it is when the batch starts, in
  whatever order the tasks start. The tasks that miss the cache then wait for a permit,
  pause and issue their requests in some order (\<open>issue_request\<close>), and their answers
  arrive in some other order (\<open>complete_request\<close>: the rest of \<open>search_crossref\<close> and the
  cache write). Both orders are the environment's, given for the batch that starts when
  the run has issued \<open>k\<close> requests. \<open>sleeps\<close> lists the pauses before the requests of
  the batch, then the back-offs. \<open>run_all\<close> threads the world through a list of steps.
\<close>

definition issue_request ::
  "env \<Rightarrow> nat \<times> string \<Rightarrow> world \<Rightarrow> (nat \<times> string \<times> response) \<times> world" where
  "issue_request E task w =
     (let (i, t) = task;
          query = take 100 t
      in ((i, t, crossref E (length (requests w)) query),
          w\<lparr>sleeps := sleeps w @ [1 / rate_limit], requests := requests w @ [query]\<rparr>))"

definition complete_request ::
  "env \<Rightarrow> nat \<times> string \<times> response \<Rightarrow> world \<Rightarrow> (nat \<times> result option) \<times> world" where
  "complete_request E answer w =
     (let (i, t, resp) = answer;
          (res, w1) = read_response E t resp w
      in ((i, res), cache_outcome E t res w1))"

fun run_all :: "('a \<Rightarrow> world \<Rightarrow> 'b \<times> world) \<Rightarrow> 'a list \<Rightarrow> world \<Rightarrow> 'b list \<times> world" where
  "run_all f [] w = ([], w)"
| "run_all f (x # xs) w =
     (let (y, w1) = f x w;
          (ys, w2) = run_all f xs w1
      in (y # ys, w2))"

definition waiting_tasks :: "(nat \<times> pending) list \<Rightarrow> (nat \<times> string) list" where
  "waiting_tasks started =
     concat (map (\<lambda>(i, p). case p of Done r \<Rightarrow> [] | Waiting t \<Rightarrow> [(i, t)]) started)"

definition gather :: "env \<Rightarrow> string option list \<Rightarrow> world \<Rightarrow> result option list \<times> world" where
  "gather E titles w =
     (let started = zip [0..<length titles]
                      (map (\<lambda>t. process_title_start E t (cache w)) titles);
          k = length (requests w);
          (answers, w1) = run_all (issue_request E)
                            (shuffle (request_order E k) (waiting_tasks started)) w;
          (fetched, w2) = run_all (complete_request E)
                            (shuffle (completion_order E k) answers) w1
      in (map (\<lambda>(i, p). case p of
                           Done r \<Rightarrow> r
                         | Waiting t \<Rightarrow> (case map_of fetched i of Some res \<Rightarrow> res | None \<Rightarrow> None))
            started,
          w2))"

definition no_match :: result where
  "no_match = \<lparr>doi = None, crossref_title = None, similarity_score = 0, from_cache = False\<rparr>"

definition valid_pairs :: "env \<Rightarrow> (nat \<times> row) list \<Rightarrow> (nat \<times> string option) list" where
  "valid_pairs E batch_df =
     map (\<lambda>(idx, r). (idx, NM_PRODUCAO r))
       (filter (\<lambda>(idx, r). \<not> should_skip_title E (NM_PRODUCAO r)) batch_df)"

text \<open>
  \<open>set_loc idx r\<close> is the four assignments \<open>batch_df.loc[idx, column] = ...\<close>: they
  write the result into every row whose label is \<open>idx\<close>.
\<close>

definition set_loc :: "nat \<Rightarrow> result \<Rightarrow> (nat \<times> erow) list \<Rightarrow> (nat \<times> erow) list" where
  "set_loc idx r df = map (\<lambda>(l, rw, e). if l = idx then (l, rw, r) else (l, rw, e)) df"

fun apply_results ::
  "((nat \<times> string option) \<times> result option) list \<Rightarrow> (nat \<times> erow) list \<Rightarrow> (nat \<times> erow) list" where
  "apply_results [] df = df"
| "apply_results (((idx, title), res) # rest) df =
     apply_results rest (case res of None \<Rightarrow> df | Some r \<Rightarrow> set_loc idx r df)"

definition process_batch :: "env \<Rightarrow> (nat \<times> row) list \<Rightarrow> world \<Rightarrow> (nat \<times> erow) list \<times> world" where
  "process_batch E batch_df w =
     (let pairs = valid_pairs E batch_df;
          init = map (\<lambda>(idx, r). (idx, r, no_match)) batch_df
      in if pairs = [] then (init, w)
         else
           let (results, w1) = gather E (map snd pairs) w
           in (apply_results (zip pairs results) init, w1))"

subsection \<open>Checkpoints\<close>

definition ck_name :: "checkpoint \<Rightarrow> nat \<times> nat" where
  "ck_name f = (ck_target f, ck_count f)"

text \<open>
  \<open>glob_checkpoints\<close> is the pattern \<open>checkpoint_<target>_*.parquet\<close>; \<open>py_max\<close> is
  \<open>max(files, key=...)\<close> on a non-empty list, which returns the first maximal element.
\<close>

definition glob_checkpoints :: "nat \<Rightarrow> checkpoint list \<Rightarrow> checkpoint list" where
  "glob_checkpoints target fs = filter (\<lambda>f. ck_target f = target) fs"

definition py_max :: "('a \<Rightarrow> nat) \<Rightarrow> 'a \<Rightarrow> 'a list \<Rightarrow> 'a" where
  "py_max key x xs = fold (\<lambda>y best. if key y > key best then y else best) xs x"

definition get_last_checkpoint :: "checkpoint list \<Rightarrow> nat \<Rightarrow> checkpoint option \<times> nat" where
  "get_last_checkpoint fs target =
     (case glob_checkpoints target fs of
        [] \<Rightarrow> (None, 0)
      | f # rest \<Rightarrow>
          (let latest_checkpoint = py_max st_mtime f rest
           in (Some latest_checkpoint, ck_count latest_checkpoint)))"

text \<open>
  \<open>to_parquet\<close> replaces the file of the same name or adds a new one; \<open>unlink\<close> removes
  a file by its name. \<open>save_checkpoint\<close> writes the file and the progress row, then
  removes \<open>sorted(glob, key=mtime)[:-3]\<close>. \<open>now\<close> is the clock at the save.
\<close>

definition to_parquet :: "checkpoint \<Rightarrow> checkpoint list \<Rightarrow> checkpoint list" where
  "to_parquet f fs =
     (if list_ex (\<lambda>g. ck_name g = ck_name f) fs
      then map (\<lambda>g. if ck_name g = ck_name f then f else g) fs
      else fs @ [f])"

definition unlink :: "checkpoint \<Rightarrow> checkpoint list \<Rightarrow> checkpoint list" where
  "unlink f fs = filter (\<lambda>g. ck_name g \<noteq> ck_name f) fs"

definition old_checkpoints :: "nat \<Rightarrow> checkpoint list \<Rightarrow> checkpoint list" where
  "old_checkpoints target fs =
     (let sorted = sort_key st_mtime (glob_checkpoints target fs)
      in take (length sorted - 3) sorted)"

definition save_checkpoint :: "erow list \<Rightarrow> nat \<Rightarrow> nat \<Rightarrow> nat \<Rightarrow> world \<Rightarrow> world" where
  "save_checkpoint df target n now w =
     (let written = to_parquet
            \<lparr>ck_target = target, ck_count = n, st_mtime = now, ck_data = df\<rparr> (storage w);
          entry = \<lparr>session_id = now, records_processed = n, target_size = target,
                   checkpoint_file = (target, n), status = ''checkpoint''\<rparr>
      in w\<lparr>storage := fold unlink (old_checkpoints target written) written,
            progress := progress w @ [entry]\<rparr>)"

subsection \<open>The run\<close>

text \<open>
  \<open>unique\<close> is \<open>Series.unique()\<close>: the distinct values in the order of their first
  appearance.
\<close>

definition unique :: "'a list \<Rightarrow> 'a list" where
  "unique xs = rev (remdups (rev xs))"

record dataframe =
  has_AN_BASE :: bool
  df_rows :: "(nat \<times> row) list"

definition reset_index :: "'a list \<Rightarrow> (nat \<times> 'a) list" where
  "reset_index xs = zip [0..<length xs] xs"

text \<open>
  The rows of one year: \<open>df[df['AN_BASE'] == year]\<close>. NaN equals nothing, itself
  included.
\<close>

definition year_data :: "dataframe \<Rightarrow> nat option \<Rightarrow> (nat \<times> row) list" where
  "year_data df year =
     filter (\<lambda>(idx, r). year \<noteq> None \<and> AN_BASE r = year) (df_rows df)"

definition year_samples :: "env \<Rightarrow> dataframe \<Rightarrow> nat \<Rightarrow> nat option list \<Rightarrow> (nat \<times> row) list list" where
  "year_samples E df records_per_year years =
     concat (map (\<lambda>(j, year).
        let sample_size = min (length (year_data df year)) records_per_year
        in if sample_size > 0 then [sample (rng E j) sample_size (year_data df year)] else [])
       (zip [0..<length years] years))"

definition select_remaining :: "env \<Rightarrow> dataframe \<Rightarrow> nat \<Rightarrow> error + (nat \<times> row) list" where
  "select_remaining E df remaining_records =
     (if has_AN_BASE df then
        (let years = unique (map (\<lambda>(idx, r). AN_BASE r) (df_rows df))
         in if years = [] then Inl ZeroDivisionError
            else
              let records_per_year = remaining_records div length years;
                  samples = year_samples E df records_per_year years
              in if samples = [] then Inl ValueError
                 else
                   let remaining_df = reset_index (map snd (concat samples))
                   in if length remaining_df > remaining_records
                      then Inr (sample (rng E (length years)) remaining_records remaining_df)
                      else Inr remaining_df)
      else Inr (sample (rng E 0) (min (length (df_rows df)) remaining_records) (df_rows df)))"

text \<open>
  The test of line 419, and what \<open>pd.concat(..., ignore_index=True)\<close> makes of the
  seed and the batches processed so far.
\<close>

definition checkpoint_due :: "nat \<Rightarrow> nat \<Rightarrow> nat \<Rightarrow> bool" where
  "checkpoint_due current_total batch_id total_batches =
     (current_total mod checkpoint_interval = 0 \<or> int batch_id = int total_batches - 1)"

definition concat_frames :: "erow list \<Rightarrow> (nat \<times> erow) list list \<Rightarrow> erow list" where
  "concat_frames processed_df new_enriched_data =
     (if length processed_df > 0 then processed_df @ concat (map (map snd) new_enriched_data)
      else concat (map (map snd) new_enriched_data))"

definition batch_step ::
  "env \<Rightarrow> nat \<Rightarrow> erow list \<Rightarrow> (nat \<times> row) list \<Rightarrow> nat \<Rightarrow> nat \<Rightarrow>
   (nat \<times> erow) list list \<times> world \<Rightarrow> (nat \<times> erow) list list \<times> world" where
  "batch_step E target processed_df remaining_df total_batches batch_id st =
     (let (new_enriched_data, w) = st;
          start_idx = batch_id * batch_size;
          end_idx = min ((batch_id + 1) * batch_size) (length remaining_df);
          batch_df = take (end_idx - start_idx) (drop start_idx remaining_df);
          (enriched_batch, w1) = process_batch E batch_df w;
          new_data = new_enriched_data @ [enriched_batch];
          current_total = length processed_df + sum_list (map length new_data)
      in if checkpoint_due current_total batch_id total_batches
         then (new_data,
               save_checkpoint (concat_frames processed_df new_data) target current_total
                 (clock E batch_id) w1)
         else (new_data, w1))"

definition total_batches_of :: "nat \<Rightarrow> nat" where
  "total_batches_of n = (n + batch_size - 1) div batch_size"

definition batch_loop ::
  "env \<Rightarrow> nat \<Rightarrow> erow list \<Rightarrow> (nat \<times> row) list \<Rightarrow> world \<Rightarrow> (nat \<times> erow) list list \<times> world" where
  "batch_loop E target processed_df remaining_df w =
     (let total_batches = total_batches_of (length remaining_df)
      in fold (batch_step E target processed_df remaining_df total_batches)
           [0..<total_batches] ([], w))"

definition enrich_with_resume ::
  "env \<Rightarrow> dataframe \<Rightarrow> nat \<Rightarrow> world \<Rightarrow> (error + erow list) \<times> world" where
  "enrich_with_resume E df target w =
     (let (checkpoint_file, n) = get_last_checkpoint (storage w) target;
          resumed = (checkpoint_file \<noteq> None \<and> n > 0);
          processed_df = (case checkpoint_file of
                            Some f \<Rightarrow> if n > 0 then ck_data f else []
                          | None \<Rightarrow> [])
      in if resumed \<and> length processed_df \<ge> target then (Inr (take target processed_df), w)
         else if int target - int (length processed_df) \<le> 0 then (Inr processed_df, w)
         else
           (case select_remaining E df (target - length processed_df) of
              Inl e \<Rightarrow> (Inl e, w)
            | Inr remaining_df \<Rightarrow>
                let (new_enriched_data, w1) = batch_loop E target processed_df remaining_df w
                in if length processed_df = 0 \<and> new_enriched_data = [] then (Inl ValueError, w1)
                   else
                     let final_df = concat_frames processed_df new_enriched_data
                     in (Inr final_df, w1\<lparr>outputs := (outputs w1)(target \<mapsto> final_df)\<rparr>)))"

subsection \<open>What the selector accepts\<close>

text \<open>
  The loop body of \<open>find_best_match\<close> accepts a candidate when its first title is not
  empty and its score against the upper-cased, stripped source title reaches the
  threshold; \<open>accepted\<close> is the dictionary it returns for that candidate.
\<close>

definition qualifies :: "env \<Rightarrow> string \<Rightarrow> item \<Rightarrow> bool" where
  "qualifies E original_title it =
     (first_title it \<noteq> [] \<and>
      similarity E (strip (upper E original_title)) it \<ge> similarity_threshold)"

definition accepted :: "env \<Rightarrow> string \<Rightarrow> item \<Rightarrow> result" where
  "accepted E original_title it =
     \<lparr>doi = item_DOI it, crossref_title = Some (first_title it),
      similarity_score = similarity E (strip (upper E original_title)) it, from_cache = False\<rparr>"

subsection \<open>Notions used in the statements\<close>



definition label_frame :: "(nat \<Rightarrow> result) \<Rightarrow> (nat \<times> row) list \<Rightarrow> (nat \<times> erow) list" where
  "label_frame g batch_df = map (\<lambda>(idx, r). (idx, r, g idx)) batch_df"

fun label_results ::
  "((nat \<times> string option) \<times> result option) list \<Rightarrow> (nat \<Rightarrow> result) \<Rightarrow> (nat \<Rightarrow> result)" where
  "label_results [] g = g"
| "label_results (((idx, title), res) # rest) g =
     label_results rest (case res of None \<Rightarrow> g | Some r \<Rightarrow> g(idx := r))"


definition run_saves :: "(erow list \<times> nat \<times> nat \<times> nat) list \<Rightarrow> world \<Rightarrow> world" where
  "run_saves saves w = fold (\<lambda>(df, target, n, now). save_checkpoint df target n now) saves w"

subsection \<open>Notions used in the statements about a run\<close>

text \<open>
  The cumulative count after batch \<open>batch_id\<close> of a run that starts from
  \<open>processed_df\<close> and processes \<open>remaining_df\<close>, and the progress row that a save
  after that batch appends.
\<close>

definition total_after :: "erow list \<Rightarrow> (nat \<times> row) list \<Rightarrow> nat \<Rightarrow> nat" where
  "total_after processed_df remaining_df batch_id =
     length processed_df + min ((batch_id + 1) * batch_size) (length remaining_df)"

definition checkpoint_entry :: "env \<Rightarrow> nat \<Rightarrow> nat \<Rightarrow> nat \<Rightarrow> progress_row" where
  "checkpoint_entry E target batch_id n =
     \<lparr>session_id = clock E batch_id, records_processed = n, target_size = target,
      checkpoint_file = (target, n), status = ''checkpoint''\<rparr>"

text \<open>
  The save that follows batch \<open>batch_id\<close>: the seed and the enriched batches up to that
  one, with the target size, the cumulative count and the time.
\<close>

definition snapshot_save ::
  "env \<Rightarrow> nat \<Rightarrow> erow list \<Rightarrow> (nat \<times> row) list \<Rightarrow> (nat \<times> erow) list list \<Rightarrow> nat \<Rightarrow>
   erow list \<times> nat \<times> nat \<times> nat" where
  "snapshot_save E target processed_df remaining_df new_enriched_data batch_id =
     (concat_frames processed_df (take (batch_id + 1) new_enriched_data), target,
      total_after processed_df remaining_df batch_id, clock E batch_id)"




subsection \<open>Concrete inputs\<close>

text \<open>
  An environment for evaluation at ASCII inputs: \<open>str.upper\<close> on ASCII text, a scorer
  that gives 100 to equal strings and 0 to different ones, a service with the given
  answers, no random numbers (every draw takes the first element left, so that samples
  and orders follow the input) and a clock that shows 100 plus the batch number.
\<close>

definition exact_ratio :: "string \<Rightarrow> string \<Rightarrow> real" where
  "exact_ratio a b = (if a = b then 100 else 0)"

definition ascii_env :: "(nat \<Rightarrow> string \<Rightarrow> response) \<Rightarrow> env" where
  "ascii_env service =
     \<lparr>upper = ascii_upper, token_sort_ratio = exact_ratio, crossref = service,
      rng = (\<lambda>n. []), clock = (\<lambda>b. 100 + b),
      request_order = (\<lambda>k. []), completion_order = (\<lambda>k. [])\<rparr>"

definition empty_world :: world where
  "empty_world =
     \<lparr>cache = Map.empty, requests = [], sleeps = [], storage = [], progress = [],
      outputs = Map.empty\<rparr>"

text \<open>A row with a title and no year, and such a row as a checkpoint holds it.\<close>

definition title_row :: "string option \<Rightarrow> row" where
  "title_row t = \<lparr>NM_PRODUCAO = t, AN_BASE = None\<rparr>"

definition seeded :: "string \<Rightarrow> erow" where
  "seeded t = (title_row (Some t), no_match)"

section \<open>The selector\<close>

lemma match_loop_find:
  "match_loop E (strip (upper E t)) items = map_option (accepted E t) (find (qualifies E t) items)"
  by (induction items) (simp_all add: qualifies_def accepted_def)

lemma find_best_match_find:
  "find_best_match E t items = map_option (accepted E t) (find (qualifies E t) items)"
  by (simp add: find_best_match_def match_loop_find)

text \<open>
  C7, as amended. \<open>find_best_match\<close> returns the first candidate, in input order, that
  has a non-empty title and scores at least 90 against the source title: no candidate of a
  lower index that qualifies is passed over. It returns nothing exactly when no candidate
  qualifies, and so for the empty list. The source title has no test of its own: an empty
  one is scored like any other.
\<close>

theorem find_best_match_first_above_threshold:
  "(\<forall>m. find_best_match E t items = Some m \<longrightarrow>
      (\<exists>i<length items. qualifies E t (items ! i) \<and> m = accepted E t (items ! i) \<and>
          (\<forall>j<i. \<not> qualifies E t (items ! j)))) \<and>
   (find_best_match E t items = None \<longleftrightarrow> (\<forall>it \<in> set items. \<not> qualifies E t it)) \<and>
   find_best_match E t [] = None"
proof -
  have a: "\<forall>m. find_best_match E t items = Some m \<longrightarrow>
      (\<exists>i<length items. qualifies E t (items ! i) \<and> m = accepted E t (items ! i) \<and>
          (\<forall>j<i. \<not> qualifies E t (items ! j)))"
    by (auto simp: find_best_match_find find_Some_iff)
  have b: "find_best_match E t items = None \<longleftrightarrow> (\<forall>it \<in> set items. \<not> qualifies E t it)"
    by (auto simp: find_best_match_find find_None_iff)
  have c: "find_best_match E t [] = None"
    by (simp add: find_best_match_def)
  from a b c show ?thesis by blast
qed

text \<open>
  The theorem at a list of four candidates: one without a title, one that scores 0, and two
  that score 100. The third is returned, not the fourth.
\<close>

theorem find_best_match_first_above_threshold_witness:
  "find_best_match (ascii_env (\<lambda>n q. Transport_error)) ''Graph theory''
     [\<lparr>item_DOI = Some ''10.1/a'', item_title = None\<rparr>,
      \<lparr>item_DOI = Some ''10.1/b'', item_title = Some [''Group theory'']\<rparr>,
      \<lparr>item_DOI = Some ''10.1/c'', item_title = Some [''graph theory'']\<rparr>,
      \<lparr>item_DOI = Some ''10.1/d'', item_title = Some [''GRAPH THEORY'']\<rparr>]
   = Some \<lparr>doi = Some ''10.1/c'', crossref_title = Some ''graph theory'',
           similarity_score = 100, from_cache = False\<rparr> \<and>
   (\<exists>i < length
        [\<lparr>item_DOI = Some ''10.1/a'', item_title = None\<rparr>,
         \<lparr>item_DOI = Some ''10.1/b'', item_title = Some [''Group theory'']\<rparr>,
         \<lparr>item_DOI = Some ''10.1/c'', item_title = Some [''graph theory'']\<rparr>,
         \<lparr>item_DOI = Some ''10.1/d'', item_title = Some [''GRAPH THEORY'']\<rparr>].
      qualifies (ascii_env (\<lambda>n q. Transport_error)) ''Graph theory''
       ([\<lparr>item_DOI = Some ''10.1/a'', item_title = None\<rparr>,
         \<lparr>item_DOI = Some ''10.1/b'', item_title = Some [''Group theory'']\<rparr>,
         \<lparr>item_DOI = Some ''10.1/c'', item_title = Some [''graph theory'']\<rparr>,
         \<lparr>item_DOI = Some ''10.1/d'', item_title = Some [''GRAPH THEORY'']\<rparr>] ! i))"
proof -
  let ?E = "ascii_env (\<lambda>n q. Transport_error)"
  let ?items = "[\<lparr>item_DOI = Some ''10.1/a'', item_title = None\<rparr>,
      \<lparr>item_DOI = Some ''10.1/b'', item_title = Some [''Group theory'']\<rparr>,
      \<lparr>item_DOI = Some ''10.1/c'', item_title = Some [''graph theory'']\<rparr>,
      \<lparr>item_DOI = Some ''10.1/d'', item_title = Some [''GRAPH THEORY'']\<rparr>]"
  let ?m = "\<lparr>doi = Some ''10.1/c'', crossref_title = Some ''graph theory'',
           similarity_score = 100, from_cache = False\<rparr>"
  have h: "find_best_match ?E ''Graph theory'' ?items = Some ?m"
    by (simp add: find_best_match_def first_title_def similarity_def similarity_threshold_def
        ascii_env_def ascii_upper_def ascii_upper_char_def exact_ratio_def strip_def
        py_isspace_def)
  from find_best_match_first_above_threshold [of ?E "''Graph theory''" ?items] h
  have "\<exists>i<length ?items. qualifies ?E ''Graph theory'' (?items ! i)"
    by blast
  with h show ?thesis by blast
qed

text \<open>
  C7, as the specification states it, fails for an empty source title: with a scorer that
  gives 100 to equal strings, a candidate whose title is one space is stripped to the empty
  string, scores 100 against the empty source title, and is returned.
\<close>

theorem find_best_match_empty_source_counterexample:
  "find_best_match (ascii_env (\<lambda>n q. Transport_error)) []
     [\<lparr>item_DOI = Some ''10.1000/x'', item_title = Some ['' '']\<rparr>]
   = Some \<lparr>doi = Some ''10.1000/x'', crossref_title = Some '' '', similarity_score = 100,
           from_cache = False\<rparr>"
  by (simp add: find_best_match_def first_title_def similarity_def similarity_threshold_def
      ascii_env_def ascii_upper_def ascii_upper_char_def exact_ratio_def strip_def py_isspace_def)

lemma match_loop_filter:
  "match_loop E c (filter (\<lambda>it. first_title it \<noteq> []) items) = match_loop E c items"
  by (induction items) simp_all

lemma match_loop_titled:
  "match_loop E c items = Some m \<Longrightarrow> \<exists>ct. crossref_title m = Some ct \<and> ct \<noteq> []"
  by (induction items) (auto split: if_splits)

text \<open>
  C10. A candidate whose title list is absent or empty, or whose first title is the empty
  string, is never selected, wherever it stands and whatever it would score: removing all
  such candidates from the list does not change the result, so none of them hides a later
  candidate, and every result carries a non-empty matched title.
\<close>

theorem find_best_match_skips_untitled:
  "find_best_match E t items = find_best_match E t (filter (\<lambda>it. first_title it \<noteq> []) items) \<and>
   (\<forall>m. find_best_match E t items = Some m \<longrightarrow> (\<exists>ct. crossref_title m = Some ct \<and> ct \<noteq> []))"
proof -
  have "match_loop E (strip (upper E t)) [] = None" by simp
  then have a: "find_best_match E t items
      = find_best_match E t (filter (\<lambda>it. first_title it \<noteq> []) items)"
    unfolding find_best_match_def
    by (metis match_loop_filter)
  have b: "\<forall>m. find_best_match E t items = Some m \<longrightarrow> (\<exists>ct. crossref_title m = Some ct \<and> ct \<noteq> [])"
    by (auto simp: find_best_match_def dest: match_loop_titled split: if_splits)
  from a b show ?thesis by blast
qed

theorem find_best_match_skips_untitled_witness:
  "find_best_match (ascii_env (\<lambda>n q. Transport_error)) ''Knot theory''
     [\<lparr>item_DOI = Some ''10.2/a'', item_title = Some []\<rparr>,
      \<lparr>item_DOI = Some ''10.2/b'', item_title = Some [[], ''Knot theory'']\<rparr>,
      \<lparr>item_DOI = Some ''10.2/c'', item_title = Some [''Knot theory'']\<rparr>]
   = Some \<lparr>doi = Some ''10.2/c'', crossref_title = Some ''Knot theory'',
           similarity_score = 100, from_cache = False\<rparr> \<and>
   (\<exists>ct. crossref_title \<lparr>doi = Some ''10.2/c'', crossref_title = Some ''Knot theory'',
           similarity_score = 100, from_cache = False\<rparr> = Some ct \<and> ct \<noteq> [])"
proof -
  let ?E = "ascii_env (\<lambda>n q. Transport_error)"
  let ?items = "[\<lparr>item_DOI = Some ''10.2/a'', item_title = Some []\<rparr>,
      \<lparr>item_DOI = Some ''10.2/b'', item_title = Some [[], ''Knot theory'']\<rparr>,
      \<lparr>item_DOI = Some ''10.2/c'', item_title = Some [''Knot theory'']\<rparr>]"
  let ?m = "\<lparr>doi = Some ''10.2/c'', crossref_title = Some ''Knot theory'',
           similarity_score = 100, from_cache = False\<rparr>"
  have h: "find_best_match ?E ''Knot theory'' ?items = Some ?m"
    by (simp add: find_best_match_def first_title_def similarity_def similarity_threshold_def
        ascii_env_def ascii_upper_def ascii_upper_char_def exact_ratio_def strip_def
        py_isspace_def)
  from find_best_match_skips_untitled [of ?E "''Knot theory''" ?items] h
  have "\<exists>ct. crossref_title ?m = Some ct \<and> ct \<noteq> []"
    by blast
  with h show ?thesis by blast
qed

section \<open>Normalisation and the skip filter\<close>




text \<open>
  C9 at the title of three characters a, newline, b: its stripped length is 3, and
  \<open>should_skip_title\<close> returns \<open>False\<close>. The pattern \<^verbatim>\<open>^.{0,5}$\<close> cannot pass the
  newline, and no other rule applies.
\<close>

theorem should_skip_title_short_with_newline:
  "length (strip [CHR ''a'', CHR 0x0A, CHR ''b'']) < 6 \<and>
   should_skip_title (ascii_env (\<lambda>n q. Transport_error)) (Some [CHR ''a'', CHR 0x0A, CHR ''b''])
     = False"
  by (simp add: should_skip_title_def skip_patterns_def portuguese_indicators_def
      ascii_env_def ascii_upper_def ascii_upper_char_def strip_def py_isspace_def Let_def)

text \<open>A title of fewer than six characters on one line is skipped.\<close>

lemma re_match_dot_short:
  assumes "length s < 6" and "CHR 0x0A \<notin> set s"
  shows "re_match [Rep Dot 0 (Some 5)] s"
proof -
  have tw: "takeWhile (in_class Dot) s = s"
    using assms(2) by (induction s) auto
  have "length s \<in> set [0..<Suc (min 5 (length s))]"
    using assms(1) by auto
  moreover have "re_match [] (drop (length s) s)" by simp
  ultimately show ?thesis
    unfolding re_match.simps Let_def tw list_ex_iff option.case by blast
qed

lemma should_skip_title_short_one_line:
  assumes "length (strip t) < 6" and "CHR 0x0A \<notin> set (strip t)"
  shows "should_skip_title E (Some t)"
proof -
  have "[Rep Dot 0 (Some 5)] \<in> set skip_patterns"
    by (simp add: skip_patterns_def)
  then have "list_ex (\<lambda>pattern. re_match pattern (strip t)) skip_patterns"
    unfolding list_ex_iff using re_match_dot_short[OF assms] by blast
  then show ?thesis
    by (simp add: should_skip_title_def Let_def del: re_match.simps)
qed

section \<open>Batch completeness\<close>

lemma set_loc_label_frame:
  "set_loc idx r (label_frame g batch) = label_frame (g(idx := r)) batch"
  by (induction batch) (auto simp: set_loc_def label_frame_def)

lemma apply_results_label_frame:
  "apply_results ps (label_frame g batch) = label_frame (label_results ps g) batch"
proof (induction ps arbitrary: g)
  case Nil
  then show ?case by simp
next
  case (Cons p ps)
  obtain idx title res where p: "p = ((idx, title), res)" by (cases p) auto
  show ?case
    by (cases res) (simp_all add: p Cons.IH set_loc_label_frame fun_upd_def)
qed

lemma shape_label_frame:
  "map (\<lambda>(idx, rw, e). (idx, rw)) (label_frame g batch) = batch"
  by (induction batch) (auto simp: label_frame_def)


lemma process_batch_label_frame:
  "fst (process_batch E batch w) =
     label_frame
       (label_results (zip (valid_pairs E batch) (fst (gather E (map snd (valid_pairs E batch)) w)))
          (\<lambda>idx. no_match)) batch"
proof (cases "valid_pairs E batch = []")
  case True
  then show ?thesis
    by (simp add: process_batch_def Let_def label_frame_def)
next
  case False
  have init: "map (\<lambda>(idx, r). (idx, r, no_match)) batch = label_frame (\<lambda>idx. no_match) batch"
    by (simp add: label_frame_def)
  show ?thesis
    using False
    by (simp add: process_batch_def Let_def init apply_results_label_frame split: prod.splits)
qed








section \<open>The fetch layer absorbs failures and caches the absence of a match\<close>









lemma under_semaphore_as_task:
  "under_semaphore E t w =
     (let (answer, w1) = issue_request E (i, t) w;
          (r, w2) = complete_request E answer w1
      in (snd r, w2))"
  by (simp add: under_semaphore_def search_crossref_def issue_request_def complete_request_def
      Let_def case_prod_unfold)















lemma gather_single:
  "gather E [title] w = (let (r, w') = process_title E title w in ([r], w'))"
proof (cases "process_title_start E title (cache w)")
  case (Done r)
  then show ?thesis
    by (simp add: gather_def process_title_def process_title_finish_def waiting_tasks_def
        shuffle_def Let_def)
next
  case (Waiting t)
  then show ?thesis
    by (simp add: gather_def process_title_def process_title_finish_def waiting_tasks_def
        shuffle_def Let_def under_semaphore_def search_crossref_def issue_request_def
        complete_request_def case_prod_unfold)
qed




section \<open>Checkpoint retention\<close>

lemma fold_unlink:
  "fold unlink olds fs = filter (\<lambda>g. ck_name g \<notin> ck_name ` set olds) fs"
  by (induction olds arbitrary: fs) (auto simp: unlink_def intro: filter_cong)

lemma storage_save_checkpoint:
  "storage (save_checkpoint df T n now w) =
     (let written = to_parquet \<lparr>ck_target = T, ck_count = n, st_mtime = now, ck_data = df\<rparr> (storage w)
      in filter (\<lambda>g. ck_name g \<notin> ck_name ` set (old_checkpoints T written)) written)"
  by (simp add: save_checkpoint_def Let_def fold_unlink)

lemma length_filter_sort_key:
  "length (filter P (sort_key f xs)) = length (filter P xs)"
  by (simp add: filter_sort)

lemma pruned_at_most_three:
  "length (glob_checkpoints T
     (filter (\<lambda>g. ck_name g \<notin> ck_name ` set (old_checkpoints T written)) written)) \<le> 3"
proof -
  let ?fs = "glob_checkpoints T written"
  let ?sorted = "sort_key st_mtime ?fs"
  let ?olds = "take (length ?sorted - 3) ?sorted"
  let ?keep = "drop (length ?sorted - 3) ?sorted"
  let ?P = "\<lambda>g. ck_name g \<notin> ck_name ` set ?olds"
  have olds: "old_checkpoints T written = ?olds"
    by (simp add: old_checkpoints_def Let_def)
  have "glob_checkpoints T (filter ?P written) = filter ?P ?fs"
    by (simp add: glob_checkpoints_def conj_commute)
  moreover have "length (filter ?P ?fs) = length (filter ?P ?sorted)"
    by (simp only: length_filter_sort_key)
  moreover have "filter ?P ?sorted = filter ?P ?olds @ filter ?P ?keep"
    by (metis append_take_drop_id filter_append)
  moreover have "filter ?P ?olds = []"
    by (simp add: filter_empty_conv)
  moreover have "length (filter ?P ?keep) \<le> length ?keep"
    by (rule length_filter_le)
  moreover have "length ?keep \<le> 3" by simp
  ultimately show ?thesis unfolding olds by simp
qed

lemma save_checkpoint_at_most_three:
  "length (glob_checkpoints T (storage (save_checkpoint df T n now w))) \<le> 3"
  unfolding storage_save_checkpoint Let_def by (rule pruned_at_most_three)

lemma glob_to_parquet_other:
  assumes "ck_target f \<noteq> T"
  shows "glob_checkpoints T (to_parquet f fs) = glob_checkpoints T fs"
proof -
  have "filter (\<lambda>g. ck_target g = T) (map (\<lambda>g. if ck_name g = ck_name f then f else g) fs)
      = filter (\<lambda>g. ck_target g = T) fs"
    using assms by (induction fs) (auto simp: ck_name_def)
  then show ?thesis
    using assms by (simp add: glob_checkpoints_def to_parquet_def)
qed

lemma old_checkpoints_target:
  "g \<in> set (old_checkpoints T' fs) \<Longrightarrow> ck_target g = T'"
proof -
  assume "g \<in> set (old_checkpoints T' fs)"
  then have "g \<in> set (sort_key st_mtime (glob_checkpoints T' fs))"
    unfolding old_checkpoints_def Let_def by (rule in_set_takeD)
  then show ?thesis by (simp add: glob_checkpoints_def)
qed

lemma save_checkpoint_other_target:
  assumes "T' \<noteq> T"
  shows "glob_checkpoints T (storage (save_checkpoint df T' n now w)) = glob_checkpoints T (storage w)"
proof -
  let ?f = "\<lparr>ck_target = T', ck_count = n, st_mtime = now, ck_data = df\<rparr>"
  let ?written = "to_parquet ?f (storage w)"
  have keep: "\<And>g. ck_target g = T \<Longrightarrow> ck_name g \<notin> ck_name ` set (old_checkpoints T' ?written)"
    using assms by (auto simp: ck_name_def dest: old_checkpoints_target)
  have "glob_checkpoints T (filter (\<lambda>g. ck_name g \<notin> ck_name ` set (old_checkpoints T' ?written)) ?written)
      = glob_checkpoints T ?written"
    unfolding glob_checkpoints_def filter_filter
    by (rule filter_cong) (use keep in auto)
  also have "\<dots> = glob_checkpoints T (storage w)"
    using assms by (simp add: glob_to_parquet_other)
  finally show ?thesis
    unfolding storage_save_checkpoint Let_def .
qed

lemma run_saves_at_most_three:
  "\<exists>s \<in> set saves. fst (snd s) = T \<Longrightarrow>
   length (glob_checkpoints T (storage (run_saves saves w))) \<le> 3"
proof (induction saves arbitrary: w rule: rev_induct)
  case Nil
  then show ?case by simp
next
  case (snoc s saves)
  obtain df T' n now where s: "s = (df, T', n, now)" by (cases s) auto
  have step: "run_saves (saves @ [s]) w = save_checkpoint df T' n now (run_saves saves w)"
    by (simp add: run_saves_def s)
  show ?case
  proof (cases "T' = T")
    case True
    then show ?thesis unfolding step by (simp add: save_checkpoint_at_most_three)
  next
    case False
    with snoc.prems s have "\<exists>s \<in> set saves. fst (snd s) = T" by auto
    then have "length (glob_checkpoints T (storage (run_saves saves w))) \<le> 3"
      by (rule snoc.IH)
    then show ?thesis unfolding step by (simp add: save_checkpoint_other_target False)
  qed
qed

lemma distinct_names_to_parquet:
  assumes "distinct (map ck_name fs)"
  shows "distinct (map ck_name (to_parquet f fs))"
proof (cases "list_ex (\<lambda>g. ck_name g = ck_name f) fs")
  case True
  have "map ck_name (map (\<lambda>g. if ck_name g = ck_name f then f else g) fs) = map ck_name fs"
    by (induction fs) auto
  with True assms show ?thesis unfolding to_parquet_def by (simp only: if_True)
next
  case False
  with assms show ?thesis by (auto simp: to_parquet_def list_ex_iff)
qed

lemma pruned_keeps_newest:
  assumes "distinct (map ck_name written)"
  shows "set (glob_checkpoints T
           (filter (\<lambda>g. ck_name g \<notin> ck_name ` set (old_checkpoints T written)) written))
       = set (drop (length (glob_checkpoints T written) - 3)
               (sort_key st_mtime (glob_checkpoints T written)))"
proof -
  let ?fs = "glob_checkpoints T written"
  let ?sorted = "sort_key st_mtime ?fs"
  let ?k = "length ?fs - 3"
  have olds: "old_checkpoints T written = take ?k ?sorted"
    by (simp add: old_checkpoints_def Let_def)
  have dfs: "distinct (map ck_name ?fs)"
    using assms unfolding glob_checkpoints_def by (rule distinct_map_filter)
  have inj: "inj_on ck_name (set ?fs)" and d: "distinct ?fs"
    using dfs by (simp_all add: distinct_map)
  have dsorted: "distinct ?sorted" using d by simp
  have split: "set ?fs = set (take ?k ?sorted) \<union> set (drop ?k ?sorted)"
    by (metis append_take_drop_id set_append set_sort)
  have disj: "set (take ?k ?sorted) \<inter> set (drop ?k ?sorted) = {}"
    using dsorted by (metis append_take_drop_id distinct_append)
  have "set (glob_checkpoints T (filter (\<lambda>g. ck_name g \<notin> ck_name ` set (take ?k ?sorted)) written))
      = {g \<in> set ?fs. ck_name g \<notin> ck_name ` set (take ?k ?sorted)}"
    by (auto simp: glob_checkpoints_def)
  also have "\<dots> = {g \<in> set ?fs. g \<notin> set (take ?k ?sorted)}"
  proof -
    have "\<And>g. g \<in> set ?fs \<Longrightarrow>
        (ck_name g \<in> ck_name ` set (take ?k ?sorted)) = (g \<in> set (take ?k ?sorted))"
    proof -
      fix g assume g: "g \<in> set ?fs"
      have sub: "set (take ?k ?sorted) \<subseteq> set ?fs" using split by blast
      show "(ck_name g \<in> ck_name ` set (take ?k ?sorted)) = (g \<in> set (take ?k ?sorted))"
        using inj g sub by (meson inj_on_image_mem_iff)
    qed
    then show ?thesis by blast
  qed
  also have "\<dots> = set (drop ?k ?sorted)"
    using split disj by blast
  finally show ?thesis unfolding olds .
qed

text \<open>
  C6. After any sequence of saves that contains at least one save for the target size
  \<open>T\<close>, from any directory, at most three checkpoint files for \<open>T\<close> exist. Each save
  for \<open>T\<close> leaves at most three, and in a directory without duplicate names exactly the
  last three of the files for \<open>T\<close> in the order of their modification times remain.
\<close>

theorem checkpoint_retention:
  "((\<exists>s \<in> set saves. fst (snd s) = T) \<longrightarrow>
      length (glob_checkpoints T (storage (run_saves saves w0))) \<le> 3) \<and>
   length (glob_checkpoints T (storage (save_checkpoint df T n now w))) \<le> 3 \<and>
   (distinct (map ck_name (storage w)) \<longrightarrow>
      set (glob_checkpoints T (storage (save_checkpoint df T n now w))) =
      set (drop
        (length (glob_checkpoints T (to_parquet
           \<lparr>ck_target = T, ck_count = n, st_mtime = now, ck_data = df\<rparr> (storage w))) - 3)
        (sort_key st_mtime (glob_checkpoints T (to_parquet
           \<lparr>ck_target = T, ck_count = n, st_mtime = now, ck_data = df\<rparr> (storage w))))))"
proof -
  have a: "(\<exists>s \<in> set saves. fst (snd s) = T) \<longrightarrow>
      length (glob_checkpoints T (storage (run_saves saves w0))) \<le> 3"
    using run_saves_at_most_three by blast
  have b: "length (glob_checkpoints T (storage (save_checkpoint df T n now w))) \<le> 3"
    by (rule save_checkpoint_at_most_three)
  have c: "distinct (map ck_name (storage w)) \<longrightarrow>
      set (glob_checkpoints T (storage (save_checkpoint df T n now w))) =
      set (drop
        (length (glob_checkpoints T (to_parquet
           \<lparr>ck_target = T, ck_count = n, st_mtime = now, ck_data = df\<rparr> (storage w))) - 3)
        (sort_key st_mtime (glob_checkpoints T (to_parquet
           \<lparr>ck_target = T, ck_count = n, st_mtime = now, ck_data = df\<rparr> (storage w)))))"
    unfolding storage_save_checkpoint Let_def
    using pruned_keeps_newest distinct_names_to_parquet by blast
  from a b c show ?thesis by blast
qed

text \<open>
  The theorem at a directory with three checkpoints for the target 7 and one for the
  target 8: a fourth save for 7 removes the oldest of 7 and leaves 8 alone.
\<close>

theorem checkpoint_retention_witness:
  "(\<exists>s \<in> set ([([], 7, 10, 1), ([], 8, 10, 1), ([], 7, 20, 2), ([], 7, 30, 3), ([], 7, 40, 4)]
        :: (erow list \<times> nat \<times> nat \<times> nat) list).
      fst (snd s) = 7) \<and>
   length (glob_checkpoints 7 (storage (run_saves
     [([], 7, 10, 1), ([], 8, 10, 1), ([], 7, 20, 2), ([], 7, 30, 3), ([], 7, 40, 4)]
     empty_world))) \<le> 3 \<and>
   distinct (map ck_name
     [\<lparr>ck_target = 7, ck_count = 20, st_mtime = 2, ck_data = []\<rparr>,
      \<lparr>ck_target = 7, ck_count = 10, st_mtime = 1, ck_data = []\<rparr>,
      \<lparr>ck_target = 8, ck_count = 10, st_mtime = 1, ck_data = []\<rparr>,
      \<lparr>ck_target = 7, ck_count = 30, st_mtime = 3, ck_data = []\<rparr>]) \<and>
   glob_checkpoints 7 (storage (save_checkpoint [] 7 40 4
     (empty_world\<lparr>storage :=
        [\<lparr>ck_target = 7, ck_count = 20, st_mtime = 2, ck_data = []\<rparr>,
         \<lparr>ck_target = 7, ck_count = 10, st_mtime = 1, ck_data = []\<rparr>,
         \<lparr>ck_target = 8, ck_count = 10, st_mtime = 1, ck_data = []\<rparr>,
         \<lparr>ck_target = 7, ck_count = 30, st_mtime = 3, ck_data = []\<rparr>]\<rparr>)))
   = [\<lparr>ck_target = 7, ck_count = 20, st_mtime = 2, ck_data = []\<rparr>,
      \<lparr>ck_target = 7, ck_count = 30, st_mtime = 3, ck_data = []\<rparr>,
      \<lparr>ck_target = 7, ck_count = 40, st_mtime = 4, ck_data = []\<rparr>]"
proof -
  let ?saves = "[([], 7, 10, 1), ([], 8, 10, 1), ([], 7, 20, 2), ([], 7, 30, 3), ([], 7, 40, 4)]
    :: (erow list \<times> nat \<times> nat \<times> nat) list"
  have h: "\<exists>s \<in> set ?saves. fst (snd s) = (7::nat)" by simp
  from checkpoint_retention [of ?saves 7 empty_world] h
  have bound: "length (glob_checkpoints 7 (storage (run_saves ?saves empty_world))) \<le> 3"
    by blast
  have d: "distinct (map ck_name
     [\<lparr>ck_target = 7, ck_count = 20, st_mtime = 2, ck_data = []\<rparr>,
      \<lparr>ck_target = 7, ck_count = 10, st_mtime = 1, ck_data = []\<rparr>,
      \<lparr>ck_target = 8, ck_count = 10, st_mtime = 1, ck_data = []\<rparr>,
      \<lparr>ck_target = 7, ck_count = 30, st_mtime = 3, ck_data = []\<rparr>])"
    by (simp add: ck_name_def)
  have e: "glob_checkpoints 7 (storage (save_checkpoint [] 7 40 4
     (empty_world\<lparr>storage :=
        [\<lparr>ck_target = 7, ck_count = 20, st_mtime = 2, ck_data = []\<rparr>,
         \<lparr>ck_target = 7, ck_count = 10, st_mtime = 1, ck_data = []\<rparr>,
         \<lparr>ck_target = 8, ck_count = 10, st_mtime = 1, ck_data = []\<rparr>,
         \<lparr>ck_target = 7, ck_count = 30, st_mtime = 3, ck_data = []\<rparr>]\<rparr>)))
   = [\<lparr>ck_target = 7, ck_count = 20, st_mtime = 2, ck_data = []\<rparr>,
      \<lparr>ck_target = 7, ck_count = 30, st_mtime = 3, ck_data = []\<rparr>,
      \<lparr>ck_target = 7, ck_count = 40, st_mtime = 4, ck_data = []\<rparr>]"
    by (simp add: save_checkpoint_def to_parquet_def old_checkpoints_def glob_checkpoints_def
        unlink_def ck_name_def empty_world_def Let_def)
  from h bound d e show ?thesis by blast
qed

section \<open>The batch loop\<close>

lemma search_crossref_files:
  "storage (snd (search_crossref E t w)) = storage w \<and>
   progress (snd (search_crossref E t w)) = progress w"
  by (simp add: search_crossref_def read_response_def Let_def split: response.splits payload.splits)

lemma under_semaphore_files:
  "storage (snd (under_semaphore E t w)) = storage w \<and>
   progress (snd (under_semaphore E t w)) = progress w"
proof -
  let ?w0 = "w\<lparr>sleeps := sleeps w @ [1 / rate_limit]\<rparr>"
  obtain res w1 where s: "search_crossref E t ?w0 = (res, w1)"
    by (cases "search_crossref E t ?w0")
  from search_crossref_files[of E t ?w0] s
  have "storage w1 = storage w \<and> progress w1 = progress w" by simp
  then show ?thesis
    by (cases res) (simp_all add: under_semaphore_def cache_outcome_def Let_def s)
qed

lemma read_response_files:
  "storage (snd (read_response E t resp w)) = storage w \<and>
   progress (snd (read_response E t resp w)) = progress w"
  by (simp add: read_response_def split: response.splits payload.splits)

lemma cache_outcome_files:
  "storage (cache_outcome E t res w) = storage w \<and>
   progress (cache_outcome E t res w) = progress w"
  by (cases res) (simp_all add: cache_outcome_def)

lemma issue_request_files:
  "storage (snd (issue_request E task w)) = storage w \<and>
   progress (snd (issue_request E task w)) = progress w"
  by (simp add: issue_request_def Let_def case_prod_unfold)

lemma complete_request_files:
  "storage (snd (complete_request E answer w)) = storage w \<and>
   progress (snd (complete_request E answer w)) = progress w"
  by (simp add: complete_request_def Let_def case_prod_unfold read_response_files
      cache_outcome_files)

lemma run_all_files:
  assumes "\<And>x v. storage (snd (f x v)) = storage v \<and> progress (snd (f x v)) = progress v"
  shows "storage (snd (run_all f xs w)) = storage w \<and>
         progress (snd (run_all f xs w)) = progress w"
proof (induction xs arbitrary: w)
  case Nil
  then show ?case by simp
next
  case (Cons x xs)
  obtain y w1 where a: "f x w = (y, w1)" by (cases "f x w")
  obtain ys w2 where b: "run_all f xs w1 = (ys, w2)" by (cases "run_all f xs w1")
  from assms[of x w] a have 1: "storage w1 = storage w \<and> progress w1 = progress w" by simp
  from Cons.IH[of w1] b have 2: "storage w2 = storage w1 \<and> progress w2 = progress w1" by simp
  from 1 2 show ?case by (simp add: a b)
qed

lemma gather_files:
  "storage (snd (gather E titles w)) = storage w \<and>
   progress (snd (gather E titles w)) = progress w"
proof -
  let ?tasks = "shuffle (request_order E (length (requests w)))
      (waiting_tasks (zip [0..<length titles]
         (map (\<lambda>t. process_title_start E t (cache w)) titles)))"
  obtain answers w1 where a: "run_all (issue_request E) ?tasks w = (answers, w1)"
    by (cases "run_all (issue_request E) ?tasks w")
  let ?answers = "shuffle (completion_order E (length (requests w))) answers"
  obtain fetched w2 where b: "run_all (complete_request E) ?answers w1 = (fetched, w2)"
    by (cases "run_all (complete_request E) ?answers w1")
  from run_all_files[of "issue_request E" ?tasks w, OF issue_request_files] a
  have 1: "storage w1 = storage w \<and> progress w1 = progress w" by simp
  from run_all_files[of "complete_request E" ?answers w1, OF complete_request_files] b
  have 2: "storage w2 = storage w1 \<and> progress w2 = progress w1" by simp
  from 1 2 show ?thesis by (simp add: gather_def Let_def a b)
qed

lemma process_batch_files:
  "storage (snd (process_batch E batch w)) = storage w \<and>
   progress (snd (process_batch E batch w)) = progress w"
proof (cases "valid_pairs E batch = []")
  case True
  then show ?thesis by (simp add: process_batch_def Let_def)
next
  case False
  obtain rs w1 where g: "gather E (map snd (valid_pairs E batch)) w = (rs, w1)"
    by (cases "gather E (map snd (valid_pairs E batch)) w")
  from gather_files[of E "map snd (valid_pairs E batch)" w] g
  have "storage w1 = storage w \<and> progress w1 = progress w" by simp
  then show ?thesis
    using False by (simp add: process_batch_def Let_def g)
qed

lemma process_batch_shape:
  "map (\<lambda>(idx, rw, e). (idx, rw)) (fst (process_batch E batch w)) = batch"
  unfolding process_batch_label_frame by (rule shape_label_frame)

lemma process_batch_length:
  "length (fst (process_batch E batch w)) = length batch"
  using process_batch_shape[of E batch w] by (metis length_map)

lemma concat_rows:
  assumes "map (\<lambda>(idx, rw, e). (idx, rw)) (concat news) = remaining"
  shows "map fst (concat (map (map snd) news)) = map snd remaining \<and>
         length (concat (map (map snd) news)) = length remaining"
proof -
  have c: "concat (map (map snd) news) = map snd (concat news)"
    by (simp add: map_concat)
  have "map fst (map snd (concat news)) = map snd (map (\<lambda>(idx, rw, e). (idx, rw)) (concat news))"
    by (simp add: case_prod_unfold)
  with assms have "map fst (map snd (concat news)) = map snd remaining" by simp
  moreover have "length (map snd (concat news)) = length remaining"
    using assms by (metis length_map)
  ultimately show ?thesis unfolding c by simp
qed

lemma slice_take:
  "take (min ((k + 1) * b) (length xs) - k * b) (drop (k * b) xs) = take b (drop (k * b) xs)"
proof -
  have "\<And>m n. min (m + b) n - m = min b (n - m)" by arith
  then have "min (k * b + b) (length xs) - k * b = min b (length xs - k * b)" .
  moreover have "(k + 1) * b = k * b + b" by simp
  ultimately have eq: "min ((k + 1) * b) (length xs) - k * b = min b (length (drop (k * b) xs))"
    by (simp only: length_drop)
  have t: "\<And>ys :: 'a list. take (min b (length ys)) ys = take b ys"
    by (simp add: min_def)
  show ?thesis by (simp only: eq t)
qed

lemma take_next_batch:
  "take (k * b) xs @ take b (drop (k * b) xs) = take ((k + 1) * b) xs"
proof -
  have "(k + 1) * b = k * b + b" by simp
  then show ?thesis by (simp only: take_add)
qed

lemma progress_save_checkpoint:
  "progress (save_checkpoint df T n now w) =
     progress w @ [\<lparr>session_id = now, records_processed = n, target_size = T,
                    checkpoint_file = (T, n), status = ''checkpoint''\<rparr>]"
  by (simp add: save_checkpoint_def Let_def)

lemma batch_loop_invariant:
  "map (\<lambda>(idx, rw, e). (idx, rw))
      (concat (fst (fold (batch_step E T processed remaining tb) [0..<k] ([], w))))
     = take (k * batch_size) remaining \<and>
   length (fst (fold (batch_step E T processed remaining tb) [0..<k] ([], w))) = k \<and>
   progress (snd (fold (batch_step E T processed remaining tb) [0..<k] ([], w)))
     = progress w @
       map (\<lambda>b. checkpoint_entry E T b (total_after processed remaining b))
         (filter (\<lambda>b. checkpoint_due (total_after processed remaining b) b tb) [0..<k])"
proof (induction k)
  case 0
  then show ?case by simp
next
  case (Suc k)
  let ?st = "fold (batch_step E T processed remaining tb) [0..<k] ([], w)"
  obtain new wk where st: "?st = (new, wk)" by (cases ?st)
  let ?batch = "take (min ((k + 1) * batch_size) (length remaining) - k * batch_size)
                  (drop (k * batch_size) remaining)"
  obtain eb w1 where pb: "process_batch E ?batch wk = (eb, w1)"
    by (cases "process_batch E ?batch wk")
  from Suc.IH st
  have shape: "map (\<lambda>(idx, rw, e). (idx, rw)) (concat new) = take (k * batch_size) remaining"
    and len: "length new = k"
    and prog: "progress wk = progress w @
       map (\<lambda>b. checkpoint_entry E T b (total_after processed remaining b))
         (filter (\<lambda>b. checkpoint_due (total_after processed remaining b) b tb) [0..<k])"
    by simp_all
  have slice: "?batch = take batch_size (drop (k * batch_size) remaining)"
    by (rule slice_take)
  have "map (\<lambda>(idx, rw, e). (idx, rw)) (fst (process_batch E ?batch wk)) = ?batch"
    by (rule process_batch_shape)
  then have "map (\<lambda>(idx, rw, e). (idx, rw)) (fst (eb, w1)) = ?batch"
    by (simp only: pb)
  then have eb_shape: "map (\<lambda>(idx, rw, e). (idx, rw)) eb = take batch_size (drop (k * batch_size) remaining)"
    by (simp only: fst_conv slice)
  from process_batch_files[of E ?batch wk] pb
  have w1: "progress w1 = progress wk" by simp
  have "map (\<lambda>(idx, rw, e). (idx, rw)) (concat (new @ [eb]))
      = take (k * batch_size) remaining @ take batch_size (drop (k * batch_size) remaining)"
    using shape eb_shape by simp
  then have shape': "map (\<lambda>(idx, rw, e). (idx, rw)) (concat (new @ [eb]))
      = take ((k + 1) * batch_size) remaining"
    by (simp only: take_next_batch)
  have "length (concat (new @ [eb])) = length (take ((k + 1) * batch_size) remaining)"
    using shape' by (metis length_map)
  then have "length (concat (new @ [eb])) = min ((k + 1) * batch_size) (length remaining)"
    by (simp only: length_take min.commute)
  then have total: "length processed + sum_list (map length (new @ [eb]))
      = total_after processed remaining k"
    by (simp only: total_after_def length_concat)
  have step: "fold (batch_step E T processed remaining tb) [0..<Suc k] ([], w)
      = batch_step E T processed remaining tb k (new, wk)"
    by (simp add: st)
  have bs: "batch_step E T processed remaining tb k (new, wk)
      = (if checkpoint_due (total_after processed remaining k) k tb
         then (new @ [eb],
               save_checkpoint (concat_frames processed (new @ [eb])) T
                 (total_after processed remaining k) (clock E k) w1)
         else (new @ [eb], w1))"
    unfolding batch_step_def Let_def prod.case pb total by (rule refl)
  have upt: "[0..<Suc k] = [0..<k] @ [k]" by simp
  show ?case
  proof (cases "checkpoint_due (total_after processed remaining k) k tb")
    case True
    then show ?thesis
      unfolding step bs
      using shape' len prog w1
      by (simp add: progress_save_checkpoint checkpoint_entry_def)
  next
    case False
    then show ?thesis
      unfolding step bs
      using shape' len prog w1
      by simp
  qed
qed

lemma total_batches_cover:
  "length xs \<le> total_batches_of (length xs) * batch_size"
proof -
  let ?n = "length xs + batch_size - 1"
  have b: "0 < batch_size" by (simp add: batch_size_def)
  have "?n div batch_size * batch_size + ?n mod batch_size = ?n" by simp
  moreover have "?n mod batch_size < batch_size" using b by simp
  ultimately have "length xs \<le> ?n div batch_size * batch_size" by linarith
  then show ?thesis by (simp only: total_batches_of_def)
qed

lemma batch_loop_result:
  "map (\<lambda>(idx, rw, e). (idx, rw)) (concat (fst (batch_loop E T processed remaining w)))
     = remaining \<and>
   length (fst (batch_loop E T processed remaining w)) = total_batches_of (length remaining) \<and>
   progress (snd (batch_loop E T processed remaining w))
     = progress w @
       map (\<lambda>b. checkpoint_entry E T b (total_after processed remaining b))
         (filter (\<lambda>b. checkpoint_due (total_after processed remaining b) b
                        (total_batches_of (length remaining)))
            [0..<total_batches_of (length remaining)])"
proof -
  have "take (total_batches_of (length remaining) * batch_size) remaining = remaining"
    using total_batches_cover[of remaining] by (simp only: take_all)
  then show ?thesis
    unfolding batch_loop_def Let_def
    using batch_loop_invariant[of E T processed remaining "total_batches_of (length remaining)"
      "total_batches_of (length remaining)" w]
    by (simp only:)
qed

lemma run_saves_snoc:
  "run_saves (saves @ [(df, T, n, now)]) w = save_checkpoint df T n now (run_saves saves w)"
  by (simp add: run_saves_def)

lemma save_checkpoint_files_cong:
  assumes "storage v = storage w" and "progress v = progress w"
  shows "storage (save_checkpoint df T n now v) = storage (save_checkpoint df T n now w) \<and>
         progress (save_checkpoint df T n now v) = progress (save_checkpoint df T n now w)"
  using assms by (simp add: save_checkpoint_def Let_def)

lemma batch_step_unfold:
  assumes "process_batch E
             (take (min ((k + 1) * batch_size) (length remaining) - k * batch_size)
                (drop (k * batch_size) remaining)) w = (eb, w1)"
  shows "batch_step E T processed remaining tb k (new, w)
      = (if checkpoint_due (length processed + sum_list (map length (new @ [eb]))) k tb
         then (new @ [eb],
               save_checkpoint (concat_frames processed (new @ [eb])) T
                 (length processed + sum_list (map length (new @ [eb]))) (clock E k) w1)
         else (new @ [eb], w1))"
  unfolding batch_step_def Let_def prod.case assms by (rule refl)

lemma batch_loop_prefix:
  "k \<le> m \<Longrightarrow>
   take k (fst (fold (batch_step E T processed remaining tb) [0..<m] ([], w)))
     = fst (fold (batch_step E T processed remaining tb) [0..<k] ([], w))"
proof (induction m)
  case 0
  then show ?case by simp
next
  case (Suc m)
  let ?st = "fold (batch_step E T processed remaining tb) [0..<m] ([], w)"
  obtain new wm where st: "?st = (new, wm)" by (cases ?st)
  let ?batch = "take (min ((m + 1) * batch_size) (length remaining) - m * batch_size)
                  (drop (m * batch_size) remaining)"
  obtain eb w1 where pb: "process_batch E ?batch wm = (eb, w1)"
    by (cases "process_batch E ?batch wm")
  have len: "length new = m"
    using batch_loop_invariant[of E T processed remaining tb m w] st by simp
  have next_new: "fst (fold (batch_step E T processed remaining tb) [0..<Suc m] ([], w))
      = new @ [eb]"
    by (simp add: st batch_step_unfold[OF pb])
  show ?case
  proof (cases "k \<le> m")
    case True
    then have "take k (new @ [eb]) = take k new" using len by simp
    also have "\<dots> = fst (fold (batch_step E T processed remaining tb) [0..<k] ([], w))"
      using Suc.IH[OF True] st by simp
    finally show ?thesis unfolding next_new .
  next
    case False
    with Suc.prems have k: "k = Suc m" by simp
    have "take k (new @ [eb]) = new @ [eb]" using len k by simp
    then show ?thesis unfolding next_new[symmetric] k by simp
  qed
qed

lemma batch_loop_files_invariant:
  "storage (snd (fold (batch_step E T processed remaining tb) [0..<k] ([], w)))
     = storage (run_saves
         (map (\<lambda>b. (concat_frames processed
                       (fst (fold (batch_step E T processed remaining tb) [0..<b + 1] ([], w))),
                     T, total_after processed remaining b, clock E b))
            (filter (\<lambda>b. checkpoint_due (total_after processed remaining b) b tb) [0..<k])) w) \<and>
   progress (snd (fold (batch_step E T processed remaining tb) [0..<k] ([], w)))
     = progress (run_saves
         (map (\<lambda>b. (concat_frames processed
                       (fst (fold (batch_step E T processed remaining tb) [0..<b + 1] ([], w))),
                     T, total_after processed remaining b, clock E b))
            (filter (\<lambda>b. checkpoint_due (total_after processed remaining b) b tb) [0..<k])) w)"
proof -
  define acc where "acc = (\<lambda>j. fst (fold (batch_step E T processed remaining tb) [0..<j] ([], w)))"
  define st where "st = (\<lambda>j. snd (fold (batch_step E T processed remaining tb) [0..<j] ([], w)))"
  define due where "due = (\<lambda>b. checkpoint_due (total_after processed remaining b) b tb)"
  define mk where "mk = (\<lambda>b. (concat_frames processed (acc (b + 1)), T,
      total_after processed remaining b, clock E b))"
  have fold_eq: "\<And>j. fold (batch_step E T processed remaining tb) [0..<j] ([], w) = (acc j, st j)"
    by (simp add: acc_def st_def)
  have main: "storage (st k) = storage (run_saves (map mk (filter due [0..<k])) w) \<and>
              progress (st k) = progress (run_saves (map mk (filter due [0..<k])) w)"
  proof (induction k)
    case 0
    show ?case by (simp add: run_saves_def st_def)
  next
    case (Suc k)
    let ?batch = "take (min ((k + 1) * batch_size) (length remaining) - k * batch_size)
                    (drop (k * batch_size) remaining)"
    obtain eb w1 where pb: "process_batch E ?batch (st k) = (eb, w1)"
      by (cases "process_batch E ?batch (st k)")
    let ?saves = "map mk (filter due [0..<k])"
    from process_batch_files[of E ?batch "st k"] pb Suc.IH
    have w1: "storage w1 = storage (run_saves ?saves w)"
      "progress w1 = progress (run_saves ?saves w)"
      by simp_all
    have step: "fold (batch_step E T processed remaining tb) [0..<Suc k] ([], w)
        = batch_step E T processed remaining tb k (acc k, st k)"
      by (simp add: fold_eq)
    have "length (concat (acc (k + 1))) = min ((k + 1) * batch_size) (length remaining)"
    proof -
      have "map (\<lambda>(idx, rw, e). (idx, rw)) (concat (acc (k + 1)))
          = take ((k + 1) * batch_size) remaining"
        unfolding acc_def
        using batch_loop_invariant[of E T processed remaining tb "k + 1" w] by blast
      then have "length (concat (acc (k + 1))) = length (take ((k + 1) * batch_size) remaining)"
        by (metis length_map)
      then show ?thesis by (simp only: length_take min.commute)
    qed
    moreover have acc_next: "acc (k + 1) = acc k @ [eb]"
    proof -
      have "acc (k + 1) = fst (batch_step E T processed remaining tb k (acc k, st k))"
        using step by (simp add: acc_def)
      then show ?thesis by (simp add: batch_step_unfold[OF pb])
    qed
    ultimately have total: "length processed + sum_list (map length (acc k @ [eb]))
        = total_after processed remaining k"
      by (simp only: total_after_def length_concat)
    have bs: "batch_step E T processed remaining tb k (acc k, st k)
        = (if due k
           then (acc k @ [eb],
                 save_checkpoint (concat_frames processed (acc k @ [eb])) T
                   (total_after processed remaining k) (clock E k) w1)
           else (acc k @ [eb], w1))"
      using batch_step_unfold[OF pb, of T processed tb "acc k"] unfolding total due_def .
    have st_next: "st (Suc k) = snd (batch_step E T processed remaining tb k (acc k, st k))"
      using step by (simp add: st_def)
    show ?case
    proof (cases "due k")
      case True
      have saves: "map mk (filter due [0..<Suc k]) = ?saves @ [mk k]"
        using True by simp
      have mk_k: "mk k = (concat_frames processed (acc k @ [eb]), T,
          total_after processed remaining k, clock E k)"
        by (simp only: mk_def acc_next)
      have run: "run_saves (?saves @ [mk k]) w
          = save_checkpoint (concat_frames processed (acc k @ [eb])) T
              (total_after processed remaining k) (clock E k) (run_saves ?saves w)"
        unfolding mk_k by (rule run_saves_snoc)
      have "st (Suc k) = save_checkpoint (concat_frames processed (acc k @ [eb])) T
              (total_after processed remaining k) (clock E k) w1"
        unfolding st_next bs using True by simp
      moreover have "storage (save_checkpoint (concat_frames processed (acc k @ [eb])) T
                   (total_after processed remaining k) (clock E k) w1)
          = storage (save_checkpoint (concat_frames processed (acc k @ [eb])) T
                   (total_after processed remaining k) (clock E k) (run_saves ?saves w)) \<and>
          progress (save_checkpoint (concat_frames processed (acc k @ [eb])) T
                   (total_after processed remaining k) (clock E k) w1)
          = progress (save_checkpoint (concat_frames processed (acc k @ [eb])) T
                   (total_after processed remaining k) (clock E k) (run_saves ?saves w))"
        using w1 by (rule save_checkpoint_files_cong)
      ultimately show ?thesis
        unfolding saves run by (simp only:)
    next
      case False
      have saves: "map mk (filter due [0..<Suc k]) = ?saves"
        using False by simp
      have "st (Suc k) = w1"
        unfolding st_next bs using False by simp
      then show ?thesis
        unfolding saves using w1 by (simp only:)
    qed
  qed
  then show ?thesis
    unfolding st_def mk_def due_def acc_def .
qed

lemma batch_loop_saves:
  "storage (snd (batch_loop E T processed remaining w))
     = storage (run_saves
         (map (snapshot_save E T processed remaining (fst (batch_loop E T processed remaining w)))
            (filter (\<lambda>b. checkpoint_due (total_after processed remaining b) b
                           (total_batches_of (length remaining)))
               [0..<total_batches_of (length remaining)])) w) \<and>
   progress (snd (batch_loop E T processed remaining w))
     = progress (run_saves
         (map (snapshot_save E T processed remaining (fst (batch_loop E T processed remaining w)))
            (filter (\<lambda>b. checkpoint_due (total_after processed remaining b) b
                           (total_batches_of (length remaining)))
               [0..<total_batches_of (length remaining)])) w)"
proof -
  let ?tb = "total_batches_of (length remaining)"
  let ?due = "\<lambda>b. checkpoint_due (total_after processed remaining b) b ?tb"
  let ?news = "fst (fold (batch_step E T processed remaining ?tb) [0..<?tb] ([], w))"
  have eq: "map (\<lambda>b. (concat_frames processed
                       (fst (fold (batch_step E T processed remaining ?tb) [0..<b + 1] ([], w))),
                     T, total_after processed remaining b, clock E b))
            (filter ?due [0..<?tb])
      = map (snapshot_save E T processed remaining ?news) (filter ?due [0..<?tb])"
  proof (rule map_cong[OF refl])
    fix b assume "b \<in> set (filter ?due [0..<?tb])"
    then have "b + 1 \<le> ?tb" by simp
    then have "take (b + 1) ?news
        = fst (fold (batch_step E T processed remaining ?tb) [0..<b + 1] ([], w))"
      by (rule batch_loop_prefix)
    then show "(concat_frames processed
                       (fst (fold (batch_step E T processed remaining ?tb) [0..<b + 1] ([], w))),
                     T, total_after processed remaining b, clock E b)
        = snapshot_save E T processed remaining ?news b"
      by (simp only: snapshot_save_def)
  qed
  from batch_loop_files_invariant[of E T processed remaining ?tb ?tb w]
  show ?thesis
    unfolding batch_loop_def Let_def eq .
qed

lemma snapshot_rows:
  assumes "b < total_batches_of (length remaining)"
  shows "length (concat_frames processed
           (take (b + 1) (fst (batch_loop E T processed remaining w))))
         = total_after processed remaining b \<and>
         map fst (concat_frames processed
           (take (b + 1) (fst (batch_loop E T processed remaining w))))
         = map fst processed @ map snd (take ((b + 1) * batch_size) remaining)"
proof -
  let ?tb = "total_batches_of (length remaining)"
  let ?news = "fst (fold (batch_step E T processed remaining ?tb) [0..<?tb] ([], w))"
  let ?acc = "fst (fold (batch_step E T processed remaining ?tb) [0..<b + 1] ([], w))"
  from assms have "b + 1 \<le> ?tb" by simp
  then have pre: "take (b + 1) ?news = ?acc" by (rule batch_loop_prefix)
  have shape: "map (\<lambda>(idx, rw, e). (idx, rw)) (concat ?acc) = take ((b + 1) * batch_size) remaining"
    using batch_loop_invariant[of E T processed remaining ?tb "b + 1" w] by simp
  then have rows: "map fst (concat (map (map snd) ?acc)) = map snd (take ((b + 1) * batch_size) remaining)"
    and len: "length (concat (map (map snd) ?acc)) = length (take ((b + 1) * batch_size) remaining)"
    using concat_rows by blast+
  have cf: "concat_frames processed ?acc = processed @ concat (map (map snd) ?acc)"
    by (simp add: concat_frames_def)
  have "length (concat_frames processed ?acc) = total_after processed remaining b"
    unfolding cf using len by (simp add: total_after_def min.commute)
  moreover have "map fst (concat_frames processed ?acc)
      = map fst processed @ map snd (take ((b + 1) * batch_size) remaining)"
    unfolding cf using rows by simp
  ultimately show ?thesis
    unfolding batch_loop_def Let_def pre by simp
qed

section \<open>The checkpoint trigger\<close>

text \<open>
  C4, as amended. In every run, \<open>save_checkpoint\<close> runs after a batch if and only if the
  cumulative count after that batch is an exact multiple of the checkpoint interval (1000)
  or the batch is the last one. The checkpoint directory and the progress table after the
  loop are those that result from exactly these saves, in batch order, each of the full
  set accumulated so far: the seed rows followed by the enriched rows of every batch up to
  that one, as many rows as the cumulative count, saved under the target size and that
  count. The progress table grows by one row for each of them.
\<close>

theorem checkpoint_saved_at_multiples:
  "let run = batch_loop E T processed remaining w;
       tb = total_batches_of (length remaining);
       due = filter (\<lambda>b. total_after processed remaining b mod checkpoint_interval = 0 \<or>
                          b + 1 = tb) [0..<tb];
       saves = map (snapshot_save E T processed remaining (fst run)) due
   in storage (snd run) = storage (run_saves saves w) \<and>
      progress (snd run) = progress (run_saves saves w) \<and>
      progress (snd run)
        = progress w @ map (\<lambda>b. checkpoint_entry E T b (total_after processed remaining b)) due \<and>
      (\<forall>b < tb.
         length (concat_frames processed (take (b + 1) (fst run)))
           = total_after processed remaining b \<and>
         map fst (concat_frames processed (take (b + 1) (fst run)))
           = map fst processed @ map snd (take ((b + 1) * batch_size) remaining))"
proof -
  let ?tb = "total_batches_of (length remaining)"
  have "\<And>b tb. b < tb \<Longrightarrow> (int b = int tb - 1) = (b + 1 = tb)" by auto
  then have due: "filter (\<lambda>b. checkpoint_due (total_after processed remaining b) b ?tb) [0..<?tb]
      = filter (\<lambda>b. total_after processed remaining b mod checkpoint_interval = 0 \<or>
                       b + 1 = ?tb) [0..<?tb]"
    by (intro filter_cong refl) (simp add: checkpoint_due_def)
  have files: "storage (snd (batch_loop E T processed remaining w))
     = storage (run_saves
         (map (snapshot_save E T processed remaining (fst (batch_loop E T processed remaining w)))
            (filter (\<lambda>b. total_after processed remaining b mod checkpoint_interval = 0 \<or>
                       b + 1 = ?tb) [0..<?tb])) w) \<and>
   progress (snd (batch_loop E T processed remaining w))
     = progress (run_saves
         (map (snapshot_save E T processed remaining (fst (batch_loop E T processed remaining w)))
            (filter (\<lambda>b. total_after processed remaining b mod checkpoint_interval = 0 \<or>
                       b + 1 = ?tb) [0..<?tb])) w)"
    using batch_loop_saves[of E T processed remaining w] unfolding due .
  have ledger: "progress (snd (batch_loop E T processed remaining w))
     = progress w @ map (\<lambda>b. checkpoint_entry E T b (total_after processed remaining b))
         (filter (\<lambda>b. total_after processed remaining b mod checkpoint_interval = 0 \<or>
                       b + 1 = ?tb) [0..<?tb])"
    using batch_loop_result[of E T processed remaining w] unfolding due by blast
  have rows: "\<forall>b < ?tb.
         length (concat_frames processed (take (b + 1) (fst (batch_loop E T processed remaining w))))
           = total_after processed remaining b \<and>
         map fst (concat_frames processed (take (b + 1) (fst (batch_loop E T processed remaining w))))
           = map fst processed @ map snd (take ((b + 1) * batch_size) remaining)"
    using snapshot_rows by blast
  from files ledger rows show ?thesis
    unfolding Let_def by blast
qed

text \<open>
  The theorem at a run that resumes from 800 rows and processes 400 more in two batches:
  the first batch reaches 1000 and saves, the second is the last and saves at 1200.
\<close>

theorem checkpoint_saved_at_multiples_witness:
  "map records_processed (progress (snd (batch_loop (ascii_env (\<lambda>n q. Transport_error)) 1200
      (replicate 800 (seeded ''Alpha paper'')) (replicate 400 (0, title_row None))
      empty_world))) = [1000, 1200] \<and>
   map (\<lambda>f. (ck_target f, ck_count f, st_mtime f, length (ck_data f)))
     (storage (snd (batch_loop (ascii_env (\<lambda>n q. Transport_error)) 1200
      (replicate 800 (seeded ''Alpha paper'')) (replicate 400 (0, title_row None))
      empty_world))) = [(1200, 1000, 100, 1000), (1200, 1200, 101, 1200)]"
proof -
  let ?E = "ascii_env (\<lambda>n q. Transport_error)"
  let ?p = "replicate 800 (seeded ''Alpha paper'')"
  let ?r = "replicate 400 (0, title_row None) :: (nat \<times> row) list"
  let ?run = "batch_loop ?E 1200 ?p ?r empty_world"
  have tb: "total_batches_of (length ?r) = 2"
    by (simp add: total_batches_of_def batch_size_def)
  have up: "[0..<2] = [0, 1::nat]"
    by (simp add: upt_rec)
  have ta: "total_after ?p ?r 0 = 1000" "total_after ?p ?r 1 = 1200"
    "total_after ?p ?r (Suc 0) = 1200"
    by (simp_all add: total_after_def batch_size_def)
  have due: "filter (\<lambda>b. total_after ?p ?r b mod checkpoint_interval = 0 \<or> b + 1 = 2) [0, 1]
      = [0, 1]"
    by (simp add: ta checkpoint_interval_def)
  note inst = checkpoint_saved_at_multiples [of ?E 1200 ?p ?r empty_world,
      unfolded Let_def tb up due]
  from inst have "progress (snd ?run)
      = progress empty_world @ map (\<lambda>b. checkpoint_entry ?E 1200 b (total_after ?p ?r b)) [0, 1]"
    by blast
  then have ledger: "map records_processed (progress (snd ?run)) = [1000, 1200]"
    by (simp add: ta checkpoint_entry_def empty_world_def)
  from inst have l0: "length (concat_frames ?p (take (0 + 1) (fst ?run))) = 1000"
    and l1: "length (concat_frames ?p (take (1 + 1) (fst ?run))) = 1200"
    using ta by auto
  from inst have "storage (snd ?run)
      = storage (run_saves (map (snapshot_save ?E 1200 ?p ?r (fst ?run)) [0, 1]) empty_world)"
    by blast
  also have "\<dots> =
      [\<lparr>ck_target = 1200, ck_count = 1000, st_mtime = 100,
        ck_data = concat_frames ?p (take (0 + 1) (fst ?run))\<rparr>,
       \<lparr>ck_target = 1200, ck_count = 1200, st_mtime = 101,
        ck_data = concat_frames ?p (take (1 + 1) (fst ?run))\<rparr>]"
    by (simp add: run_saves_def snapshot_save_def ta save_checkpoint_def to_parquet_def
        old_checkpoints_def glob_checkpoints_def unlink_def ck_name_def empty_world_def
        ascii_env_def Let_def)
  finally have "map (\<lambda>f. (ck_target f, ck_count f, st_mtime f, length (ck_data f)))
      (storage (snd ?run)) = [(1200, 1000, 100, 1000), (1200, 1200, 101, 1200)]"
    using l0 l1 by simp
  with ledger show ?thesis by blast
qed

text \<open>
  C4, as the specification states it, fails for a run that resumes from 950 records and
  processes 1050 more in six batches: the first batch takes the count from 950 to 1150,
  across the boundary 1000, and is not the last batch, yet the only checkpoint of the run
  is the one after the last batch, at 2000.
\<close>

theorem checkpoint_boundary_crossing_counterexample:
  "950 < checkpoint_interval \<and>
   checkpoint_interval \<le> total_after (replicate 950 (seeded ''Alpha paper''))
       (replicate 1050 (0, title_row None)) 0 \<and>
   (0::nat) + 1 \<noteq> total_batches_of 1050 \<and>
   map records_processed (progress (snd (batch_loop (ascii_env (\<lambda>n q. Transport_error)) 2000
       (replicate 950 (seeded ''Alpha paper'')) (replicate 1050 (0, title_row None))
       empty_world))) = [2000]"
proof -
  have tb: "total_batches_of 1050 = 6"
    by (simp add: total_batches_of_def batch_size_def)
  have up: "[0..<6] = [0, 1, 2, 3, 4, 5::nat]"
    by (simp add: upt_rec)
  have ta: "\<And>b. total_after (replicate 950 (seeded ''Alpha paper''))
       (replicate 1050 (0, title_row None)) b = 950 + min ((b + 1) * 200) 1050"
    by (simp add: total_after_def batch_size_def)
  have p0: "progress empty_world = []" by (simp add: empty_world_def)
  show ?thesis
    using batch_loop_result[of "ascii_env (\<lambda>n q. Transport_error)" 2000
        "replicate 950 (seeded ''Alpha paper'')" "replicate 1050 (0, title_row None)" empty_world]
    by (simp add: tb up ta p0 checkpoint_due_def checkpoint_interval_def checkpoint_entry_def)
qed

section \<open>Resuming\<close>

lemma py_max_fold:
  fixes key :: "'a \<Rightarrow> nat"
  shows "fold (\<lambda>y best. if key y > key best then y else best) xs x \<in> set (x # xs) \<and>
   key x \<le> key (fold (\<lambda>y best. if key y > key best then y else best) xs x) \<and>
   (\<forall>y \<in> set xs. key y \<le> key (fold (\<lambda>y best. if key y > key best then y else best) xs x))"
proof (induction xs arbitrary: x)
  case Nil
  then show ?case by simp
next
  case (Cons a xs)
  let ?f = "\<lambda>y best. if key y > key best then y else best"
  show ?case
  proof (cases "key a > key x")
    case True
    with Cons.IH[of a] show ?thesis by auto
  next
    case False
    with Cons.IH[of x] show ?thesis by auto
  qed
qed

lemma get_last_checkpoint_Some:
  assumes "get_last_checkpoint fs T = (Some f, n)"
  shows "f \<in> set fs \<and> ck_target f = T \<and> ck_count f = n \<and>
         (\<forall>g \<in> set fs. ck_target g = T \<longrightarrow> st_mtime g \<le> st_mtime f)"
proof (cases "glob_checkpoints T fs")
  case Nil
  with assms show ?thesis by (simp add: get_last_checkpoint_def)
next
  case (Cons x xs)
  with assms have f: "f = py_max st_mtime x xs" and n: "n = ck_count f"
    by (auto simp: get_last_checkpoint_def Let_def)
  from py_max_fold[of st_mtime xs x] f
  have mem: "f \<in> set (x # xs)" and mx: "\<forall>y \<in> set (x # xs). st_mtime y \<le> st_mtime f"
    by (auto simp: py_max_def)
  have set_eq: "set (x # xs) = {g \<in> set fs. ck_target g = T}"
    using Cons by (metis glob_checkpoints_def set_filter)
  from mem mx n show ?thesis unfolding set_eq by auto
qed

text \<open>
  C1, as amended. If the checkpoint that \<open>get_last_checkpoint\<close> selects for the target
  size \<open>T\<close> (a file for \<open>T\<close> whose modification time no other file for \<open>T\<close>
  exceeds) has a recorded count above 0 and holds at least \<open>T\<close> rows, the run returns
  exactly the first \<open>T\<close> rows of that checkpoint and leaves the world as it was: no
  request is issued.
\<close>

theorem resume_returns_checkpoint:
  assumes "get_last_checkpoint (storage w) T = (Some f, n)"
    and "0 < n" and "T \<le> length (ck_data f)"
  shows "enrich_with_resume E df T w = (Inr (take T (ck_data f)), w) \<and>
         length (take T (ck_data f)) = T \<and>
         requests (snd (enrich_with_resume E df T w)) = requests w \<and>
         f \<in> set (storage w) \<and> ck_target f = T \<and> ck_count f = n \<and>
         (\<forall>g \<in> set (storage w). ck_target g = T \<longrightarrow> st_mtime g \<le> st_mtime f)"
proof -
  have run: "enrich_with_resume E df T w = (Inr (take T (ck_data f)), w)"
    using assms by (simp add: enrich_with_resume_def)
  have len: "length (take T (ck_data f)) = T"
    using assms(3) by simp
  from run len get_last_checkpoint_Some[OF assms(1)] show ?thesis by simp
qed

theorem resume_returns_checkpoint_witness:
  "get_last_checkpoint
     (storage (empty_world\<lparr>storage :=
        [\<lparr>ck_target = 2, ck_count = 3, st_mtime = 10,
          ck_data = [seeded ''Alpha paper'', seeded ''Beta paper'', seeded ''Gamma paper'']\<rparr>]\<rparr>)) 2
   = (Some \<lparr>ck_target = 2, ck_count = 3, st_mtime = 10,
          ck_data = [seeded ''Alpha paper'', seeded ''Beta paper'', seeded ''Gamma paper'']\<rparr>, 3) \<and>
   enrich_with_resume (ascii_env (\<lambda>n q. Transport_error))
     \<lparr>has_AN_BASE = False, df_rows = [(0, title_row (Some ''Knot theory''))]\<rparr> 2
     (empty_world\<lparr>storage :=
        [\<lparr>ck_target = 2, ck_count = 3, st_mtime = 10,
          ck_data = [seeded ''Alpha paper'', seeded ''Beta paper'', seeded ''Gamma paper'']\<rparr>]\<rparr>)
   = (Inr [seeded ''Alpha paper'', seeded ''Beta paper''],
      empty_world\<lparr>storage :=
        [\<lparr>ck_target = 2, ck_count = 3, st_mtime = 10,
          ck_data = [seeded ''Alpha paper'', seeded ''Beta paper'', seeded ''Gamma paper'']\<rparr>]\<rparr>)"
proof -
  let ?f = "\<lparr>ck_target = 2, ck_count = 3, st_mtime = 10,
          ck_data = [seeded ''Alpha paper'', seeded ''Beta paper'', seeded ''Gamma paper'']\<rparr>"
  let ?w = "empty_world\<lparr>storage := [?f]\<rparr>"
  have a: "get_last_checkpoint (storage ?w) 2 = (Some ?f, 3)"
    by (simp add: get_last_checkpoint_def glob_checkpoints_def py_max_def empty_world_def)
  have b: "(0::nat) < 3" by simp
  have c: "2 \<le> length (ck_data ?f)" by simp
  from resume_returns_checkpoint [OF a b c]
  have "enrich_with_resume (ascii_env (\<lambda>n q. Transport_error))
     \<lparr>has_AN_BASE = False, df_rows = [(0, title_row (Some ''Knot theory''))]\<rparr> 2 ?w
     = (Inr (take 2 (ck_data ?f)), ?w)"
    by blast
  then have "enrich_with_resume (ascii_env (\<lambda>n q. Transport_error))
     \<lparr>has_AN_BASE = False, df_rows = [(0, title_row (Some ''Knot theory''))]\<rparr> 2 ?w
     = (Inr [seeded ''Alpha paper'', seeded ''Beta paper''], ?w)"
    by simp
  with a show ?thesis by blast
qed

text \<open>
  C1, as the specification states it, fails when the most recently modified checkpoint is
  not the one with the greatest count: for the target 2, with a checkpoint of count 2
  modified at time 10 and a checkpoint of count 1 modified at time 20, the run resumes from
  the second, issues a request for the one title it still needs, and returns a row of the
  second checkpoint and the new row.
\<close>

theorem resume_by_greatest_count_counterexample:
  "let older = \<lparr>ck_target = 2, ck_count = 2, st_mtime = 10,
                 ck_data = [seeded ''Alpha paper'', seeded ''Beta paper'']\<rparr>;
       newer = \<lparr>ck_target = 2, ck_count = 1, st_mtime = 20,
                 ck_data = [seeded ''Gamma paper'']\<rparr>;
       w = empty_world\<lparr>storage := [older, newer]\<rparr>;
       df = \<lparr>has_AN_BASE = False, df_rows = [(0, title_row (Some ''Knot theory''))]\<rparr>;
       run = enrich_with_resume (ascii_env (\<lambda>n q. Transport_error)) df 2 w
   in fst run = Inr [seeded ''Gamma paper'', (title_row (Some ''Knot theory''), no_match)] \<and>
      requests (snd run) = [''Knot theory'']"
  by (simp add: enrich_with_resume_def get_last_checkpoint_def glob_checkpoints_def py_max_def
      select_remaining_def batch_loop_def total_batches_of_def batch_size_def batch_step_def
      checkpoint_due_def checkpoint_interval_def concat_frames_def save_checkpoint_def
      to_parquet_def old_checkpoints_def unlink_def ck_name_def
      process_batch_def valid_pairs_def gather_def process_title_start_def
      process_title_finish_def under_semaphore_def search_crossref_def set_loc_def
      shuffle_def waiting_tasks_def issue_request_def complete_request_def read_response_def
      cache_outcome_def rate_limit_def
      should_skip_title_def skip_patterns_def portuguese_indicators_def
      ascii_env_def ascii_upper_def ascii_upper_char_def strip_def py_isspace_def Let_def
      normalize_title_def get_cached_result_def cache_result_def empty_world_def
      find_best_match_def first_title_def similarity_def similarity_threshold_def exact_ratio_def
      title_row_def seeded_def)

text \<open>
  When every checkpoint file holds as many rows as its name records and, among the files
  for \<open>T\<close>, a later modification time never goes with a smaller count (as it is for
  the files that \<open>save_checkpoint\<close> writes in the course of its runs), the most recently
  modified checkpoint is one with the greatest count, and a recorded count of at least
  \<open>T\<close> suffices.
\<close>

lemma resume_from_program_written_checkpoints:
  assumes some: "g \<in> set (storage w)" "ck_target g = T" "T \<le> ck_count g" "0 < ck_count g"
    and rows: "\<forall>h \<in> set (storage w). length (ck_data h) = ck_count h"
    and order: "\<forall>h \<in> set (storage w). \<forall>k \<in> set (storage w).
                  ck_target h = T \<and> ck_target k = T \<and> st_mtime h \<le> st_mtime k
                  \<longrightarrow> ck_count h \<le> ck_count k"
  shows "\<exists>f \<in> set (storage w). ck_target f = T \<and>
           (\<forall>h \<in> set (storage w). ck_target h = T \<longrightarrow> ck_count h \<le> ck_count f) \<and>
           enrich_with_resume E df T w = (Inr (take T (ck_data f)), w) \<and>
           length (take T (ck_data f)) = T"
proof -
  from some(1,2) have "glob_checkpoints T (storage w) \<noteq> []"
    by (auto simp: glob_checkpoints_def filter_empty_conv)
  then obtain f n where ck: "get_last_checkpoint (storage w) T = (Some f, n)"
    by (cases "glob_checkpoints T (storage w)") (auto simp: get_last_checkpoint_def Let_def)
  from get_last_checkpoint_Some[OF ck]
  have f: "f \<in> set (storage w)" "ck_target f = T" "ck_count f = n"
    and newest: "\<forall>h \<in> set (storage w). ck_target h = T \<longrightarrow> st_mtime h \<le> st_mtime f"
    by blast+
  have greatest: "\<forall>h \<in> set (storage w). ck_target h = T \<longrightarrow> ck_count h \<le> ck_count f"
    using order newest f by blast
  with some have "ck_count g \<le> ck_count f" by blast
  with some f have n: "0 < n" and le: "T \<le> ck_count f" by auto
  from rows f have "length (ck_data f) = ck_count f" by blast
  with le have len: "T \<le> length (ck_data f)" by simp
  have "enrich_with_resume E df T w = (Inr (take T (ck_data f)), w)"
    using ck n len by (simp add: enrich_with_resume_def)
  with f greatest len show ?thesis by auto
qed


















end
